theory Spec2Isabelle
  imports Complex_Main "HOL-Library.Multiset"
begin

section \<open>Go values used by package tlsping\<close>

text \<open>
  The package is one exported function, \<open>Ping\<close>, with its helpers \<open>timeit\<close> and
  \<open>resolveAddr\<close>; the command \<open>tlsping\<close> builds a \<open>Config\<close> from its flags and calls
  \<open>Ping\<close>. Everything \<open>Ping\<close> does to the outside goes through Go's standard library
  (\<open>net\<close>, \<open>crypto/tls\<close>, \<open>time\<close>); those calls are parameters of the model, collected
  in the record \<open>env\<close> below.

  A Go \<open>error\<close> is an interface value; \<open>nil\<close> is \<open>None\<close>. The constructors name the
  concrete error types the standard library hands back to this package; the package
  only passes them on.
\<close>

datatype error =
    AddrError string
  | DNSError string
  | OpError string
  | HandshakeError string

text \<open>A Go call either returns its results or panics (a run-time error).\<close>

datatype 'a go = Panics string | Returns 'a

text \<open>
  \<open>float64\<close> values are modelled by the real number they denote. The code under
  study never computes on them: it produces them with \<open>Duration.Seconds\<close>, stores
  them and hands them to \<open>summarize\<close>. \<open>time.Time\<close> and \<open>time.Duration\<close> are integer
  counts of nanoseconds.
\<close>

type_synonym float64 = real
type_synonym Time = int
type_synonym Duration = int

definition Second :: Duration where
  "Second = 1000000000"

datatype CertPool = CertPool "string list"

text \<open>\<open>net.Dialer\<close>: the only field the package sets is \<open>Timeout\<close>.\<close>

record Dialer =
  Timeout :: Duration

text \<open>
  \<open>tls.Config\<close> as built by \<open>Ping\<close>: \<open>ServerName\<close>, \<open>InsecureSkipVerify\<close>, \<open>RootCAs\<close>,
  in this order.
\<close>

datatype tls_Config = tls_Config string bool "CertPool option"

subsection \<open>The types of the package\<close>

text \<open>\<open>type Config struct\<close> (a \<open>*x509.CertPool\<close> may be \<open>nil\<close>).\<close>

record Config =
  AvoidTLSHandshake :: bool
  InsecureSkipVerify :: bool
  RootCAs :: "CertPool option"
  Count :: int
  Ip :: string

text \<open>
  \<open>PingResult\<close>: the fields \<open>Ping\<close> sets (\<open>Host\<close>, \<open>IPAddr\<close>, \<open>Address\<close>) and the
  statistics fields the command reads from it (\<open>Count\<close>, \<open>Min\<close>, \<open>Max\<close>, \<open>Avg\<close>, \<open>Std\<close>;
  the first three carry a suffix here, \<open>Count\<close> being a field of \<open>Config\<close> and
  \<open>Min\<close>, \<open>Max\<close> constants of HOL). The Go literal \<open>PingResult{}\<close> is the value with
  every field zero.
\<close>

record PingResult =
  Host :: string
  IPAddr :: string
  Address :: string
  Count_r :: int
  Min_r :: float64
  Max_r :: float64
  Avg :: float64
  Std :: float64

definition PingResult_zero :: PingResult where
  "PingResult_zero =
     \<lparr>Host = [], IPAddr = [], Address = [], Count_r = 0, Min_r = 0, Max_r = 0, Avg = 0, Std = 0\<rparr>"

text \<open>\<open>type connectDuration struct\<close>.\<close>

record connectDuration =
  seconds :: float64
  err :: "error option"

subsection \<open>The outside world\<close>

text \<open>
  A call of a standard-library function that touches the network or the clock may
  answer differently each time. Each such call is therefore identified by who makes
  it: the resolver's probe of the \<open>k\<close>-th candidate address, or the \<open>i\<close>-th worker
  goroutine launched by \<open>Ping\<close>.
\<close>

datatype call = Probe nat | Worker nat

text \<open>
  What \<open>Ping\<close> does to the outside is kept as a list of events, so that statements such
  as "no timed attempt is performed" can be made about the model. A dial event records
  its caller, the dialer, the network, the address (and the TLS configuration) and
  what the call answered.
\<close>

datatype event =
    Looked string
  | Dialed call Dialer string string "error option"
  | Handshaken call Dialer string string tls_Config "error option"
  | Summarized "float64 list"

text \<open>
  The environment: the library functions the package calls. \<open>Dial\<close> and
  \<open>DialWithDialer\<close> return a connection that the package closes at once and never
  uses, so only their error result is kept. \<open>Now c k\<close> is the \<open>k\<close>-th reading of the
  clock made by caller \<open>c\<close>. \<open>summarize\<close> and \<open>setSummaryStats\<close> belong to the package
  but are defined in another file of it, as is the type of what \<open>summarize\<close> returns;
  they are parameters too, with \<open>'st\<close> for that type.
\<close>

record 'st env =
  SplitHostPort :: "string \<Rightarrow> error + string \<times> string"
  JoinHostPort :: "string \<Rightarrow> string \<Rightarrow> string"
  LookupHost :: "string \<Rightarrow> error + string list"
  Dial :: "call \<Rightarrow> Dialer \<Rightarrow> string \<Rightarrow> string \<Rightarrow> error option"
  DialWithDialer :: "call \<Rightarrow> Dialer \<Rightarrow> string \<Rightarrow> string \<Rightarrow> tls_Config \<Rightarrow> error option"
  Now :: "call \<Rightarrow> nat \<Rightarrow> Time"
  Sub :: "Time \<Rightarrow> Time \<Rightarrow> Duration"
  Seconds :: "Duration \<Rightarrow> float64"
  summarize :: "float64 list \<Rightarrow> 'st"
  setSummaryStats :: "PingResult \<Rightarrow> 'st \<Rightarrow> PingResult"

section \<open>The functions of the package\<close>

subsection \<open>timeit\<close>

text \<open>
  \<open>func timeit(f func() error) (float64, error)\<close>. A Go \<open>func() error\<close> is a function
  of the call that invokes it, returning its error and the events it caused.
\<close>

type_synonym func = "call \<Rightarrow> error option \<times> event list"

definition timeit :: "'st env \<Rightarrow> func \<Rightarrow> call \<Rightarrow> (float64 \<times> error option) \<times> event list" where
  "timeit env f c =
     (let start = Now env c 0;
          (err, evs) = f c;
          end' = Now env c 1
      in if err \<noteq> None then ((0, err), evs)
         else ((Seconds env (Sub env end' start), None), evs))"

subsection \<open>resolveAddr\<close>

text \<open>
  The loop \<open>for _, a := range addrs\<close> of \<open>resolveAddr\<close>: dial each candidate in turn
  and stop at the first that answers. \<open>k\<close> is the position of \<open>a\<close> in \<open>addrs\<close>. The result
  is the address returned from inside the loop, or \<open>None\<close> when the loop runs off the
  end of the slice.
\<close>

fun range_addrs ::
  "'st env \<Rightarrow> Dialer \<Rightarrow> string \<Rightarrow> nat \<Rightarrow> string list \<Rightarrow> string option \<times> event list" where
  "range_addrs env d port k [] = (None, [])"
| "range_addrs env d port k (a # addrs) =
     (let hp = JoinHostPort env a port;
          e = Dial env (Probe k) d ''tcp'' hp
      in if e = None then (Some a, [Dialed (Probe k) d ''tcp'' hp e])
         else (let (r, evs) = range_addrs env d port (Suc k) addrs
               in (r, Dialed (Probe k) d ''tcp'' hp e # evs)))"

text \<open>
  \<open>func resolveAddr(addr string) (string, string, string, error)\<close>. The last line
  reads \<open>addrs[0]\<close>, which panics on an empty slice.
\<close>

definition resolveAddr ::
  "'st env \<Rightarrow> string \<Rightarrow> (string \<times> string \<times> string \<times> error option) go \<times> event list" where
  "resolveAddr env addr =
     (case SplitHostPort env addr of
        Inl e \<Rightarrow> (Returns ([], [], [], Some e), [])
      | Inr (host0, port) \<Rightarrow>
          (let host = (if length host0 = 0 then ''localhost'' else host0)
           in case LookupHost env host of
                Inl e \<Rightarrow> (Returns ([], [], [], Some e), [Looked host])
              | Inr addrs \<Rightarrow>
                  (let d = \<lparr>Timeout = 3 * Second\<rparr>;
                       (found, evs) = range_addrs env d port 0 addrs
                   in case found of
                        Some a \<Rightarrow> (Returns (host, a, port, None), Looked host # evs)
                      | None \<Rightarrow>
                          (case addrs of
                             [] \<Rightarrow> (Panics ''index out of range'', Looked host # evs)
                           | a0 # _ \<Rightarrow> (Returns (host, a0, port, None), Looked host # evs)))))"

subsection \<open>Ping\<close>

text \<open>
  The two closures \<open>Ping\<close> chooses between for \<open>f\<close>: a TCP dial, or a TCP dial followed
  by a TLS handshake. Both close the connection on success and return the error.
\<close>

definition strategy :: "'st env \<Rightarrow> Config \<Rightarrow> string \<Rightarrow> string \<Rightarrow> func" where
  "strategy env config host target =
     (let d = \<lparr>Timeout = 5 * Second\<rparr>
      in if AvoidTLSHandshake config
         then (\<lambda>c. let e = Dial env c d ''tcp'' target
                    in (e, [Dialed c d ''tcp'' target e]))
         else (let tlsConfig = tls_Config host (InsecureSkipVerify config) (RootCAs config)
               in (\<lambda>c. let e = DialWithDialer env c d ''tcp'' target tlsConfig
                         in (e, [Handshaken c d ''tcp'' target tlsConfig e]))))"

text \<open>
  The body of the \<open>i\<close>-th worker goroutine: time \<open>f\<close> once and send one
  \<open>connectDuration\<close> on the channel.
\<close>

definition worker :: "'st env \<Rightarrow> func \<Rightarrow> nat \<Rightarrow> connectDuration \<times> event list" where
  "worker env f i =
     (let ((d, e), evs) = timeit env f (Worker i)
      in (\<lparr>seconds = d, err = e\<rparr>, evs))"

text \<open>
  The loop \<open>for res := range results\<close>: return at the first error, append the duration
  otherwise. \<open>Inl\<close> is the early return, \<open>Inr\<close> the slice \<open>durations\<close> once the channel
  is closed and drained.
\<close>

fun collect :: "connectDuration list \<Rightarrow> float64 list \<Rightarrow> error + float64 list" where
  "collect [] durations = Inr durations"
| "collect (res # results) durations =
     (case err res of
        Some e \<Rightarrow> Inl e
      | None \<Rightarrow> collect results (durations @ [seconds res]))"

text \<open>
  The channel has capacity \<open>Count\<close>, so none of the \<open>Count\<close> sends blocks; it is closed
  once every worker has returned; and the loop reads it in the order of the sends.
  What the loop can see is therefore the workers' values in the order in which their
  sends happened. That order is the parameter \<open>sched\<close>: the list of worker indices in
  order of arrival, a rearrangement of \<open>0, ..., Count - 1\<close>. The next section models
  the goroutines and the channel step by step, and \<open>sampler_refines_collect\<close> shows
  that the loop ends there in exactly the ways \<open>collect\<close> ends on such an order
  (\<open>Ping_run_iff_Ping\<close> for the whole of \<open>Ping\<close>).
\<close>

definition arrival_order :: "int \<Rightarrow> nat list \<Rightarrow> bool" where
  "arrival_order n sched = (mset sched = mset [0..<nat n])"

text \<open>
  \<open>func Ping(addr string, config *Config) (PingResult, error)\<close>. The call returns
  the two results (or panics), the value of \<open>*config\<close> when it ends, and the events.
  \<open>make(chan connectDuration, config.Count)\<close> panics when the count is negative. All
  workers are started before the first value is read, so their events are there
  whether or not the loop returns early. \<open>Count\<close> is an unbounded integer and memory is
  not limited here: a count too large for a channel is treated like any other. The
  relation \<open>Ping_run\<close> below has that panic as well.
\<close>

definition Ping ::
  "'st env \<Rightarrow> nat list \<Rightarrow> string \<Rightarrow> Config
     \<Rightarrow> (PingResult \<times> error option) go \<times> Config \<times> event list" where
  "Ping env sched addr config0 =
     (let config = (if Count config0 = 0 then config0\<lparr>Count := 1\<rparr> else config0);
          (r, evs) = resolveAddr env addr
      in case r of
           Panics msg \<Rightarrow> (Panics msg, config, evs)
         | Returns (host, ipAddr, port, Some e) \<Rightarrow> (Returns (PingResult_zero, Some e), config, evs)
         | Returns (host, ipAddr, port, None) \<Rightarrow>
             (let result = PingResult_zero\<lparr>Host := host, IPAddr := ipAddr, Address := addr\<rparr>;
                  target = JoinHostPort env ipAddr port;
                  f = strategy env config host target
              in if Count config < 0
                 then (Panics ''makechan: size out of range'', config, evs)
                 else
                   (let wevs = concat (map (\<lambda>i. snd (worker env f i)) [0..<nat (Count config)]);
                        results = map (\<lambda>i. fst (worker env f i)) sched
                    in case collect results [] of
                         Inl e \<Rightarrow> (Returns (result, Some e), config, evs @ wevs)
                       | Inr durations \<Rightarrow>
                           (Returns (setSummaryStats env result (summarize env durations), None),
                            config, evs @ wevs @ [Summarized durations]))))"

text \<open>
  The part of \<open>main\<close> between flag parsing and the call of \<open>Ping\<close>: the count is raised
  to 1 when it is not positive, refused above \<open>maxCount\<close> (the process exits: \<open>None\<close>),
  and the configuration is built, from the certificates already loaded. \<open>maxCount\<close> is
  declared in another file of the command and is a parameter.
\<close>

definition main_config ::
  "int \<Rightarrow> bool \<Rightarrow> int \<Rightarrow> bool \<Rightarrow> CertPool option \<Rightarrow> string \<Rightarrow> Config option" where
  "main_config maxCount tcpOnly count0 insecure caCerts ip =
     (let count = (if count0 \<le> 0 then 1 else count0)
      in if count > maxCount then None
         else Some \<lparr>AvoidTLSHandshake = tcpOnly, InsecureSkipVerify = insecure,
                    RootCAs = caCerts, Count = count, Ip = ip\<rparr>)"

text \<open>The value of \<open>*config\<close> after the first statement of \<open>Ping\<close>.\<close>

definition defaulted :: "Config \<Rightarrow> Config" where
  "defaulted config = (if Count config = 0 then config\<lparr>Count := 1\<rparr> else config)"

section \<open>The goroutines and the channel\<close>

text \<open>
  The same lines of \<open>Ping\<close>, from \<open>make(chan ...)\<close> to the end of the collecting loop, one
  step of one goroutine at a time. The state holds the workers that have not sent yet,
  those that have sent and not yet run their deferred \<open>wg.Done()\<close>, the counter of the
  \<open>WaitGroup\<close>, the values waiting in the channel \<open>results\<close> (oldest first, each named by
  the index of the worker that sent it) and whether the channel is closed, the indices
  the loop has received, the slice \<open>durations\<close>, and how the loop ended, if it has:
  \<open>Inl\<close> for the early return with an error, \<open>Inr\<close> for the end of the channel.
\<close>

record sampler =
  running :: "nat set"
  exiting :: "nat set"
  wg :: nat
  results_buf :: "nat list"
  results_closed :: bool
  got :: "nat list"
  durations_acc :: "float64 list"
  returned :: "(error + float64 list) option"

text \<open>The state after \<open>wg.Add(config.Count)\<close> and the \<open>for\<close> loop of \<open>go\<close> statements.\<close>

definition launched :: "nat \<Rightarrow> sampler" where
  "launched n =
     \<lparr>running = {0..<n}, exiting = {}, wg = n, results_buf = [], results_closed = False,
      got = [], durations_acc = [], returned = None\<rparr>"

text \<open>
  The steps, for workers' values \<open>w\<close> and a channel of capacity \<open>n\<close>: a worker sends
  (which needs room in the channel); a worker that has sent runs \<open>wg.Done()\<close>; the
  goroutine that waits on the \<open>WaitGroup\<close> closes the channel; the loop receives a value
  with an error and returns; the loop receives a value without error and appends its
  duration; the loop finds the channel closed and empty and ends. Workers and the closing
  goroutine go on after the loop has returned.
\<close>

inductive step :: "(nat \<Rightarrow> connectDuration) \<Rightarrow> nat \<Rightarrow> sampler \<Rightarrow> sampler \<Rightarrow> bool"
  for w :: "nat \<Rightarrow> connectDuration" and n :: nat where
  send: "i \<in> running s \<Longrightarrow> length (results_buf s) < n \<Longrightarrow>
         step w n s (s\<lparr>running := running s - {i}, exiting := insert i (exiting s),
                        results_buf := results_buf s @ [i]\<rparr>)"
| wg_done: "i \<in> exiting s \<Longrightarrow>
         step w n s (s\<lparr>exiting := exiting s - {i}, wg := wg s - 1\<rparr>)"
| close: "wg s = 0 \<Longrightarrow> \<not> results_closed s \<Longrightarrow>
         step w n s (s\<lparr>results_closed := True\<rparr>)"
| receive_error: "returned s = None \<Longrightarrow> results_buf s = i # rest \<Longrightarrow> err (w i) = Some e \<Longrightarrow>
         step w n s (s\<lparr>results_buf := rest, got := got s @ [i], returned := Some (Inl e)\<rparr>)"
| receive: "returned s = None \<Longrightarrow> results_buf s = i # rest \<Longrightarrow> err (w i) = None \<Longrightarrow>
         step w n s (s\<lparr>results_buf := rest, got := got s @ [i],
                        durations_acc := durations_acc s @ [seconds (w i)]\<rparr>)"
| drained: "returned s = None \<Longrightarrow> results_buf s = [] \<Longrightarrow> results_closed s \<Longrightarrow>
         step w n s (s\<lparr>returned := Some (Inr (durations_acc s))\<rparr>)"

code_pred step .

text \<open>What holds of every state a run can reach (shown below).\<close>

definition loop_inv :: "(nat \<Rightarrow> connectDuration) \<Rightarrow> sampler \<Rightarrow> bool" where
  "loop_inv w s =
     (case returned s of
        None \<Rightarrow> list_all (\<lambda>j. err (w j) = None) (got s)
                 \<and> durations_acc s = map (\<lambda>j. seconds (w j)) (got s)
      | Some (Inl e) \<Rightarrow> got s \<noteq> [] \<and> list_all (\<lambda>j. err (w j) = None) (butlast (got s))
                 \<and> err (w (last (got s))) = Some e
      | Some (Inr ds) \<Rightarrow> list_all (\<lambda>j. err (w j) = None) (got s)
                 \<and> ds = map (\<lambda>j. seconds (w j)) (got s)
                 \<and> results_buf s = [] \<and> running s = {})"

definition sampler_inv :: "(nat \<Rightarrow> connectDuration) \<Rightarrow> nat \<Rightarrow> sampler \<Rightarrow> bool" where
  "sampler_inv w n s =
     (distinct (got s @ results_buf s)
      \<and> set (got s @ results_buf s) \<inter> running s = {}
      \<and> set (got s @ results_buf s) \<union> running s = {0..<n}
      \<and> exiting s \<subseteq> set (got s @ results_buf s)
      \<and> wg s = card (running s) + card (exiting s)
      \<and> (results_closed s \<longrightarrow> wg s = 0)
      \<and> loop_inv w s)"

text \<open>A number that every step makes smaller.\<close>

definition sampler_size :: "sampler \<Rightarrow> nat" where
  "sampler_size s =
     3 * card (running s) + card (exiting s) + length (results_buf s)
     + (if results_closed s then 0 else 1) + (if returned s = None then 1 else 0)"

text \<open>The events of the workers that were started, in the order of the \<open>go\<close> statements.\<close>

definition started :: "'st env \<Rightarrow> func \<Rightarrow> sampler \<Rightarrow> event list" where
  "started env f s = concat (map (\<lambda>i. snd (worker env f i)) (sorted_list_of_set (running s)))"

text \<open>
  \<open>Ping\<close> once more, with the goroutines and the channel in place of an arrival order:
  what a call can return, leave in \<open>*config\<close> and do. One rule for each way through the
  function: \<open>resolveAddr\<close> panics; it returns an error; \<open>make(chan ...)\<close> panics; the
  loop returns at an error; the loop ends and the durations are summarized. \<open>maxchan\<close>
  is the largest capacity for which the Go runtime makes a channel of
  \<open>connectDuration\<close>: beyond it, as below zero, \<open>make\<close> panics.
\<close>

inductive Ping_run ::
  "int \<Rightarrow> 'st env \<Rightarrow> string \<Rightarrow> Config
     \<Rightarrow> (PingResult \<times> error option) go \<times> Config \<times> event list \<Rightarrow> bool"
  for maxchan :: int and env :: "'st env" and addr :: string and config0 :: Config where
  resolve_panics:
    "resolveAddr env addr = (Panics msg, evs) \<Longrightarrow>
     Ping_run maxchan env addr config0 (Panics msg, defaulted config0, evs)"
| resolve_fails:
    "resolveAddr env addr = (Returns (host, ipAddr, port, Some e), evs) \<Longrightarrow>
     Ping_run maxchan env addr config0 (Returns (PingResult_zero, Some e), defaulted config0, evs)"
| makechan_panics:
    "resolveAddr env addr = (Returns (host, ipAddr, port, None), evs) \<Longrightarrow>
     Count (defaulted config0) < 0 \<or> maxchan < Count (defaulted config0) \<Longrightarrow>
     Ping_run maxchan env addr config0
       (Panics ''makechan: size out of range'', defaulted config0, evs)"
| returns_error:
    "resolveAddr env addr = (Returns (host, ipAddr, port, None), evs) \<Longrightarrow>
     0 \<le> Count (defaulted config0) \<Longrightarrow> Count (defaulted config0) \<le> maxchan \<Longrightarrow>
     n = nat (Count (defaulted config0)) \<Longrightarrow>
     f = strategy env (defaulted config0) host (JoinHostPort env ipAddr port) \<Longrightarrow>
     (step (\<lambda>i. fst (worker env f i)) n)\<^sup>*\<^sup>* (launched n) s \<Longrightarrow>
     returned s = Some (Inl e) \<Longrightarrow>
     Ping_run maxchan env addr config0
       (Returns (PingResult_zero\<lparr>Host := host, IPAddr := ipAddr, Address := addr\<rparr>, Some e),
        defaulted config0,
        evs @ started env f (launched n))"
| returns_summary:
    "resolveAddr env addr = (Returns (host, ipAddr, port, None), evs) \<Longrightarrow>
     0 \<le> Count (defaulted config0) \<Longrightarrow> Count (defaulted config0) \<le> maxchan \<Longrightarrow>
     n = nat (Count (defaulted config0)) \<Longrightarrow>
     f = strategy env (defaulted config0) host (JoinHostPort env ipAddr port) \<Longrightarrow>
     (step (\<lambda>i. fst (worker env f i)) n)\<^sup>*\<^sup>* (launched n) s \<Longrightarrow>
     returned s = Some (Inr durations) \<Longrightarrow>
     Ping_run maxchan env addr config0
       (Returns (setSummaryStats env
                   (PingResult_zero\<lparr>Host := host, IPAddr := ipAddr, Address := addr\<rparr>)
                   (summarize env durations), None),
        defaulted config0,
        evs @ started env f (launched n) @ [Summarized durations])"

code_pred Ping_run .

section \<open>The summarizer\<close>



section \<open>Reading a run\<close>

text \<open>
  The timed attempts of a run, read off its events: the worker's index and what its
  dial answered. Probes of the resolver are not timed attempts.
\<close>

fun attempt_of :: "event \<Rightarrow> (nat \<times> error option) option" where
  "attempt_of (Dialed (Worker i) d network address e) = Some (i, e)"
| "attempt_of (Handshaken (Worker i) d network address tlsConfig e) = Some (i, e)"
| "attempt_of ev = None"

definition attempts :: "event list \<Rightarrow> (nat \<times> error option) list" where
  "attempts evs = List.map_filter attempt_of evs"

text \<open>The slices handed to \<open>summarize\<close> during a run.\<close>

fun summary_of :: "event \<Rightarrow> float64 list option" where
  "summary_of (Summarized ds) = Some ds"
| "summary_of ev = None"

definition summaries :: "event list \<Rightarrow> float64 list list" where
  "summaries evs = List.map_filter summary_of evs"

text \<open>
  The error of worker \<open>i\<close>'s attempt, if it made one and it failed; and the errors of
  a run in the order in which the collecting loop meets them.
\<close>

definition failure :: "(nat \<times> error option) list \<Rightarrow> nat \<Rightarrow> error option" where
  "failure atts i = (case map_of atts i of Some (Some e) \<Rightarrow> Some e | _ \<Rightarrow> None)"

definition errors_in_arrival_order :: "nat list \<Rightarrow> event list \<Rightarrow> error list" where
  "errors_in_arrival_order sched evs = List.map_filter (failure (attempts evs)) sched"

section \<open>An example environment\<close>

text \<open>
  A host whose only name is \<open>localhost\<close>, with the two loopback addresses. The
  arguments say whether a listener accepts the resolver's probes on 127.0.0.1, and
  which workers' dials fail (with a reset for an even worker, a timeout for an odd
  one). The library functions are stand-ins good enough for
  addresses without brackets; the summary kept is the slice itself and \<open>setSummaryStats\<close>
  stores its length.
\<close>

definition split_last_colon :: "string \<Rightarrow> error + string \<times> string" where
  "split_last_colon s =
     (if CHR '':'' \<in> set s
      then Inr (rev (tl (dropWhile (\<lambda>c. c \<noteq> CHR '':'') (rev s))),
                rev (takeWhile (\<lambda>c. c \<noteq> CHR '':'') (rev s)))
      else Inl (AddrError ''missing port in address''))"

definition loopback :: "bool \<Rightarrow> nat list \<Rightarrow> (float64 list) env" where
  "loopback listening down =
     \<lparr>SplitHostPort = split_last_colon,
      JoinHostPort = (\<lambda>h p. if CHR '':'' \<in> set h then ''['' @ h @ '']:'' @ p else h @ '':'' @ p),
      LookupHost = (\<lambda>h. if h = ''localhost'' then Inr [''::1'', ''127.0.0.1'']
                         else Inl (DNSError ''no such host'')),
      Dial = (\<lambda>c d network address.
                case c of
                  Probe k \<Rightarrow> if listening \<and> address = ''127.0.0.1:443'' then None
                             else Some (OpError ''connection refused'')
                | Worker i \<Rightarrow> if i \<in> set down
                              then Some (OpError (if even i then ''connection reset'' else ''i/o timeout''))
                              else None),
      DialWithDialer = (\<lambda>c d network address tlsConfig.
                case c of
                  Probe k \<Rightarrow> Some (OpError ''connection refused'')
                | Worker i \<Rightarrow> if i \<in> set down then Some (HandshakeError ''bad certificate'')
                              else None),
      Now = (\<lambda>c k. case c of Probe j \<Rightarrow> 0 | Worker i \<Rightarrow> int k * (1000000 * (int i + 1))),
      Sub = (\<lambda>t u. t - u),
      Seconds = (\<lambda>d. real_of_int d / 1000000000),
      summarize = (\<lambda>ds. ds),
      setSummaryStats = (\<lambda>r ds. r\<lparr>Count_r := int (length ds)\<rparr>)\<rparr>"

definition tcp_config :: "int \<Rightarrow> Config" where
  "tcp_config n =
     \<lparr>AvoidTLSHandshake = True, InsecureSkipVerify = False, RootCAs = None, Count = n, Ip = []\<rparr>"

section \<open>The helpers, step by step\<close>

lemma attempts_Nil [simp]: "attempts [] = []"
  by (simp add: attempts_def List.map_filter_simps)

lemma attempts_append [simp]: "attempts (xs @ ys) = attempts xs @ attempts ys"
  by (simp add: attempts_def List.map_filter_def)

lemma attempts_Cons: "attempts (x # xs) = (case attempt_of x of None \<Rightarrow> attempts xs | Some a \<Rightarrow> a # attempts xs)"
  by (simp add: attempts_def List.map_filter_simps split: option.splits)

lemma summaries_Nil [simp]: "summaries [] = []"
  by (simp add: summaries_def List.map_filter_simps)

lemma summaries_append [simp]: "summaries (xs @ ys) = summaries xs @ summaries ys"
  by (simp add: summaries_def List.map_filter_def)

lemma summaries_Cons: "summaries (x # xs) = (case summary_of x of None \<Rightarrow> summaries xs | Some a \<Rightarrow> a # summaries xs)"
  by (simp add: summaries_def List.map_filter_simps split: option.splits)

lemma range_addrs_quiet:
  "attempts (snd (range_addrs env d port k addrs)) = [] \<and> summaries (snd (range_addrs env d port k addrs)) = []"
  by (induction addrs arbitrary: k) (simp_all add: Let_def attempts_Cons summaries_Cons split_def)

lemma resolveAddr_quiet:
  "attempts (snd (resolveAddr env addr)) = [] \<and> summaries (snd (resolveAddr env addr)) = []"
  by (simp add: resolveAddr_def Let_def attempts_Cons summaries_Cons split_def range_addrs_quiet
      split: sum.splits option.splits list.splits)

lemma worker_strategy_events:
  "attempts (snd (worker env (strategy env config host target) i)) = [(i, err (fst (worker env (strategy env config host target) i)))]
   \<and> summaries (snd (worker env (strategy env config host target) i)) = []"
  by (simp add: worker_def timeit_def strategy_def Let_def attempts_Cons summaries_Cons split: prod.splits)

lemma workers_events:
  "attempts (concat (map (\<lambda>i. snd (worker env (strategy env config host target) i)) is))
     = map (\<lambda>i. (i, err (fst (worker env (strategy env config host target) i)))) is
   \<and> summaries (concat (map (\<lambda>i. snd (worker env (strategy env config host target) i)) is)) = []"
  by (induction "is") (simp_all add: worker_strategy_events)

section \<open>The connection timer\<close>

text \<open>
  Claim C8. For every operation \<open>f\<close> and every call \<open>c\<close> of \<open>timeit\<close>: when \<open>f\<close> returns no
  error, \<open>timeit\<close> returns the time between the clock reading taken just before \<open>f\<close> and
  the one taken just after, in seconds, and no error; when \<open>f\<close> returns an error, it
  returns the duration zero and that error; it returns a zero duration together with
  an error exactly when \<open>f\<close> fails; and it runs \<open>f\<close> once.
\<close>

theorem timeit_elapsed_or_error:
  "(fst (f c) = None \<longrightarrow>
      fst (timeit env f c) = (Seconds env (Sub env (Now env c 1) (Now env c 0)), None))
   \<and> (\<forall>e. fst (f c) = Some e \<longrightarrow> fst (timeit env f c) = (0, Some e))
   \<and> ((\<exists>e. fst (timeit env f c) = (0, Some e)) \<longleftrightarrow> fst (f c) \<noteq> None)
   \<and> snd (timeit env f c) = snd (f c)"
  by (auto simp add: timeit_def Let_def split: prod.splits)

theorem timeit_elapsed_or_error_witness:
  "fst (strategy (loopback True [1]) (tcp_config 2) ''localhost'' ''127.0.0.1:443'' (Worker 0)) = None
   \<and> fst (timeit (loopback True [1])
            (strategy (loopback True [1]) (tcp_config 2) ''localhost'' ''127.0.0.1:443'') (Worker 0))
       = (1 / 1000, None)
   \<and> fst (strategy (loopback True [1]) (tcp_config 2) ''localhost'' ''127.0.0.1:443'' (Worker 1))
       = Some (OpError ''i/o timeout'')
   \<and> fst (timeit (loopback True [1])
            (strategy (loopback True [1]) (tcp_config 2) ''localhost'' ''127.0.0.1:443'') (Worker 1))
       = (0, Some (OpError ''i/o timeout''))"
proof -
  let ?env = "loopback True [1]"
  let ?f = "strategy ?env (tcp_config 2) ''localhost'' ''127.0.0.1:443''"
  have ok: "fst (?f (Worker 0)) = None"
    by (simp add: strategy_def loopback_def tcp_config_def Let_def)
  have bad: "fst (?f (Worker 1)) = Some (OpError ''i/o timeout'')"
    by (simp add: strategy_def loopback_def tcp_config_def Let_def)
  have elapsed: "Seconds ?env (Sub ?env (Now ?env (Worker 0) 1) (Now ?env (Worker 0) 0)) = 1 / 1000"
    by (simp add: loopback_def)
  have "fst (timeit ?env ?f (Worker 0))
      = (Seconds ?env (Sub ?env (Now ?env (Worker 0) 1) (Now ?env (Worker 0) 0)), None)"
    using timeit_elapsed_or_error [of ?f "Worker 0" ?env] ok by blast
  moreover have "fst (timeit ?env ?f (Worker 1)) = (0, Some (OpError ''i/o timeout''))"
    using timeit_elapsed_or_error [of ?f "Worker 1" ?env] bad by blast
  ultimately show ?thesis
    using ok bad elapsed by simp
qed

section \<open>The address resolver\<close>

text \<open>When no candidate answers, the loop has dialled every one of them, in order.\<close>

lemma range_addrs_none_answer:
  "\<forall>j < length addrs. Dial env (Probe (k + j)) d ''tcp'' (JoinHostPort env (addrs ! j) port) \<noteq> None
   \<Longrightarrow> range_addrs env d port k addrs =
       (None, map (\<lambda>j. Dialed (Probe (k + j)) d ''tcp'' (JoinHostPort env (addrs ! j) port)
                         (Dial env (Probe (k + j)) d ''tcp'' (JoinHostPort env (addrs ! j) port)))
                  [0..<length addrs])"
proof (induction addrs arbitrary: k)
  case Nil
  then show ?case by simp
next
  case (Cons a addrs)
  have here: "Dial env (Probe k) d ''tcp'' (JoinHostPort env a port) \<noteq> None"
    using Cons.prems [rule_format, of 0] by simp
  have later: "\<forall>j < length addrs.
      Dial env (Probe (Suc k + j)) d ''tcp'' (JoinHostPort env (addrs ! j) port) \<noteq> None"
  proof (intro allI impI)
    fix j assume "j < length addrs"
    then show "Dial env (Probe (Suc k + j)) d ''tcp'' (JoinHostPort env (addrs ! j) port) \<noteq> None"
      using Cons.prems [rule_format, of "Suc j"] by simp
  qed
  show ?case
    using here Cons.IH [OF later]
    by (simp add: Let_def map_upt_Suc del: upt_Suc)
qed

text \<open>
  Claim C5. If the address splits into host and port, the lookup of the host (or of
  \<open>localhost\<close> for an empty host) returns one or more candidates, and the probe of
  every candidate with the 3-second dialer fails, then \<open>resolveAddr\<close> returns the host
  name, the first candidate and the port with no error, after one lookup and one probe
  of each candidate, in the order of the lookup's answer.
\<close>

theorem resolveAddr_falls_back_to_first:
  assumes "SplitHostPort env addr = Inr (host0, port)"
      and "LookupHost env (if length host0 = 0 then ''localhost'' else host0) = Inr (a # addrs)"
      and "\<forall>j < length (a # addrs).
             Dial env (Probe j) \<lparr>Timeout = 3 * Second\<rparr> ''tcp''
               (JoinHostPort env ((a # addrs) ! j) port) \<noteq> None"
  shows "fst (resolveAddr env addr) =
           Returns (if length host0 = 0 then ''localhost'' else host0, a, port, None)
         \<and> snd (resolveAddr env addr) =
             Looked (if length host0 = 0 then ''localhost'' else host0)
             # map (\<lambda>j. Dialed (Probe j) \<lparr>Timeout = 3 * Second\<rparr> ''tcp''
                          (JoinHostPort env ((a # addrs) ! j) port)
                          (Dial env (Probe j) \<lparr>Timeout = 3 * Second\<rparr> ''tcp''
                             (JoinHostPort env ((a # addrs) ! j) port)))
                   [0..<length (a # addrs)]"
proof -
  have "range_addrs env \<lparr>Timeout = 3 * Second\<rparr> port 0 (a # addrs) =
       (None, map (\<lambda>j. Dialed (Probe (0 + j)) \<lparr>Timeout = 3 * Second\<rparr> ''tcp'' (JoinHostPort env ((a # addrs) ! j) port)
                         (Dial env (Probe (0 + j)) \<lparr>Timeout = 3 * Second\<rparr> ''tcp'' (JoinHostPort env ((a # addrs) ! j) port)))
                  [0..<length (a # addrs)])"
    using assms(3) by (intro range_addrs_none_answer) simp
  then show ?thesis
    using assms(1,2) by (simp add: resolveAddr_def Let_def del: range_addrs.simps upt_Suc)
qed

theorem resolveAddr_falls_back_to_first_witness:
  "fst (resolveAddr (loopback False []) ''localhost:443'') =
     Returns (''localhost'', ''::1'', ''443'', None)"
proof -
  have split: "SplitHostPort (loopback False []) ''localhost:443'' = Inr (''localhost'', ''443'')"
    by (simp add: loopback_def split_last_colon_def)
  have lookup: "LookupHost (loopback False [])
      (if length ''localhost'' = 0 then ''localhost'' else ''localhost'') = Inr [''::1'', ''127.0.0.1'']"
    by (simp add: loopback_def)
  have closed: "\<forall>j < length [''::1'', ''127.0.0.1''].
      Dial (loopback False []) (Probe j) \<lparr>Timeout = 3 * Second\<rparr> ''tcp''
        (JoinHostPort (loopback False []) ([''::1'', ''127.0.0.1''] ! j) ''443'') \<noteq> None"
    by (simp add: loopback_def)
  show ?thesis
    using resolveAddr_falls_back_to_first [OF split lookup closed] by simp
qed

text \<open>
  Claim C6. Go's resolver reports a name without addresses as an error (\<open>no such
  host\<close>), never as an empty slice with a \<open>nil\<close> error. If the lookup returns an error,
  \<open>resolveAddr\<close> returns that error, and \<open>Ping\<close> returns it with the zero
  \<open>PingResult\<close>; the only event of the run is the lookup, so no timed attempt is made.
\<close>

theorem Ping_resolution_error:
  assumes "SplitHostPort env addr = Inr (host0, port)"
      and "LookupHost env (if length host0 = 0 then ''localhost'' else host0) = Inl e"
  shows "fst (resolveAddr env addr) = Returns ([], [], [], Some e)
         \<and> fst (Ping env sched addr config) = Returns (PingResult_zero, Some e)
         \<and> attempts (snd (snd (Ping env sched addr config))) = []
         \<and> snd (snd (Ping env sched addr config)) =
             [Looked (if length host0 = 0 then ''localhost'' else host0)]"
  using assms by (simp add: Ping_def resolveAddr_def Let_def attempts_Cons)

theorem Ping_resolution_error_witness:
  "fst (Ping (loopback True []) [0] ''example.org:443'' (tcp_config 1))
     = Returns (PingResult_zero, Some (DNSError ''no such host''))
   \<and> attempts (snd (snd (Ping (loopback True []) [0] ''example.org:443'' (tcp_config 1)))) = []"
proof -
  have split: "SplitHostPort (loopback True []) ''example.org:443'' = Inr (''example.org'', ''443'')"
    by (simp add: loopback_def split_last_colon_def)
  have lookup: "LookupHost (loopback True [])
      (if length ''example.org'' = 0 then ''localhost'' else ''example.org'') = Inl (DNSError ''no such host'')"
    by (simp add: loopback_def)
  show ?thesis
    using Ping_resolution_error [OF split lookup, of "[0]" "tcp_config 1"] by blast
qed

text \<open>
  Claim C7. If the host part of the address is empty, the name that \<open>resolveAddr\<close>
  looks up is \<open>localhost\<close>; every host name it returns without error is \<open>localhost\<close>;
  and it does return one, with the port of the address, whenever the lookup of
  \<open>localhost\<close> yields a candidate. (When that lookup fails the call returns the
  lookup's error and no host name, as for any other host.)
\<close>

theorem resolveAddr_empty_host:
  assumes "SplitHostPort env addr = Inr ([], port)"
  shows "snd (resolveAddr env addr) \<noteq> [] \<and> hd (snd (resolveAddr env addr)) = Looked ''localhost''
    \<and> (\<forall>h ip p. fst (resolveAddr env addr) = Returns (h, ip, p, None) \<longrightarrow> h = ''localhost'')
    \<and> (\<forall>a addrs. LookupHost env ''localhost'' = Inr (a # addrs) \<longrightarrow>
           (\<exists>ip. fst (resolveAddr env addr) = Returns (''localhost'', ip, port, None)))"
  using assms
  by (auto simp add: resolveAddr_def Let_def split_def split: sum.splits option.splits list.splits)

theorem resolveAddr_empty_host_witness:
  "SplitHostPort (loopback True []) '':443'' = Inr ([], ''443'')
   \<and> hd (snd (resolveAddr (loopback True []) '':443'')) = Looked ''localhost''
   \<and> (\<exists>ip. fst (resolveAddr (loopback True []) '':443'') = Returns (''localhost'', ip, ''443'', None))"
proof -
  have split: "SplitHostPort (loopback True []) '':443'' = Inr ([], ''443'')"
    by (simp add: loopback_def split_last_colon_def)
  have lookup: "LookupHost (loopback True []) ''localhost'' = Inr [''::1'', ''127.0.0.1'']"
    by (simp add: loopback_def)
  show ?thesis
    using resolveAddr_empty_host [OF split] split lookup by blast
qed

section \<open>Ping, branch by branch\<close>

lemma strategy_Ip: "strategy env (config\<lparr>Ip := ip\<rparr>) host target = strategy env config host target"
  by (simp add: strategy_def Let_def)

text \<open>The three ways \<open>resolveAddr\<close> can end.\<close>

lemma resolveAddr_cases:
  obtains (panic) msg evs where "resolveAddr env addr = (Panics msg, evs)"
  | (error) host ip port e evs where "resolveAddr env addr = (Returns (host, ip, port, Some e), evs)"
  | (ok) host ip port evs where "resolveAddr env addr = (Returns (host, ip, port, None), evs)"
proof (cases "resolveAddr env addr")
  case (Pair r evs)
  then show ?thesis
  proof (cases r)
    case (Panics msg)
    with Pair panic show ?thesis by simp
  next
    case (Returns t)
    obtain host ip port e where t: "t = (host, ip, port, e)" by (cases t) auto
    show ?thesis
    proof (cases e)
      case None
      with Pair Returns t ok show ?thesis by simp
    next
      case (Some e')
      with Pair Returns t error show ?thesis by simp
    qed
  qed
qed


lemma Ping_unfold:
  "Ping env sched addr config0 =
     (let config = defaulted config0;
          (r, evs) = resolveAddr env addr
      in case r of
           Panics msg \<Rightarrow> (Panics msg, config, evs)
         | Returns (host, ipAddr, port, Some e) \<Rightarrow> (Returns (PingResult_zero, Some e), config, evs)
         | Returns (host, ipAddr, port, None) \<Rightarrow>
             (let result = PingResult_zero\<lparr>Host := host, IPAddr := ipAddr, Address := addr\<rparr>;
                  target = JoinHostPort env ipAddr port;
                  f = strategy env config host target
              in if Count config < 0
                 then (Panics ''makechan: size out of range'', config, evs)
                 else
                   (let wevs = concat (map (\<lambda>i. snd (worker env f i)) [0..<nat (Count config)]);
                        results = map (\<lambda>i. fst (worker env f i)) sched
                    in case collect results [] of
                         Inl e \<Rightarrow> (Returns (result, Some e), config, evs @ wevs)
                       | Inr durations \<Rightarrow>
                           (Returns (setSummaryStats env result (summarize env durations), None),
                            config, evs @ wevs @ [Summarized durations]))))"
  unfolding Ping_def defaulted_def ..

lemma Ping_panic:
  "resolveAddr env addr = (Panics msg, evs) \<Longrightarrow>
   Ping env sched addr config = (Panics msg, defaulted config, evs)"
  by (simp add: Ping_unfold Let_def split: sum.splits)

lemma Ping_error:
  "resolveAddr env addr = (Returns (host, ip, port, Some e), evs) \<Longrightarrow>
   Ping env sched addr config = (Returns (PingResult_zero, Some e), defaulted config, evs)"
  by (simp add: Ping_unfold Let_def split: sum.splits)

lemma Ping_negative:
  "resolveAddr env addr = (Returns (host, ip, port, None), evs) \<Longrightarrow> Count (defaulted config) < 0 \<Longrightarrow>
   Ping env sched addr config = (Panics ''makechan: size out of range'', defaulted config, evs)"
  by (simp add: Ping_unfold Let_def split: sum.splits)

lemma Ping_sampling:
  "resolveAddr env addr = (Returns (host, ip, port, None), evs) \<Longrightarrow> 0 \<le> Count (defaulted config) \<Longrightarrow>
   Ping env sched addr config =
     (case collect (map (\<lambda>i. fst (worker env (strategy env (defaulted config) host (JoinHostPort env ip port)) i)) sched) [] of
        Inl e \<Rightarrow>
          (Returns (PingResult_zero\<lparr>Host := host, IPAddr := ip, Address := addr\<rparr>, Some e),
           defaulted config,
           evs @ concat (map (\<lambda>i. snd (worker env (strategy env (defaulted config) host (JoinHostPort env ip port)) i))
                          [0..<nat (Count (defaulted config))]))
      | Inr durations \<Rightarrow>
          (Returns (setSummaryStats env (PingResult_zero\<lparr>Host := host, IPAddr := ip, Address := addr\<rparr>)
                      (summarize env durations), None),
           defaulted config,
           evs @ concat (map (\<lambda>i. snd (worker env (strategy env (defaulted config) host (JoinHostPort env ip port)) i))
                          [0..<nat (Count (defaulted config))])
               @ [Summarized durations]))"
  by (simp add: Ping_unfold Let_def split: sum.splits)

lemma collect_arrivals:
  "collect (map w sched) acc =
     (case List.map_filter (\<lambda>i. err (w i)) sched of
        [] \<Rightarrow> Inr (acc @ map (\<lambda>i. seconds (w i)) sched)
      | e # es \<Rightarrow> Inl e)"
  by (induction sched arbitrary: acc) (auto simp: List.map_filter_simps split: option.splits list.splits)

lemma map_of_indexed:
  "map_of (map (\<lambda>i. (i, g i)) [0..<n]) j = (if j < n then Some (g j) else None)"
  by (induction n) (auto simp: map_add_def less_Suc_eq)

lemma failure_indexed:
  "failure (map (\<lambda>i. (i, g i)) [0..<n]) j = (if j < n then g j else None)"
  by (simp add: failure_def map_of_indexed split: option.splits)

lemma arrival_order_set: "arrival_order n sched \<Longrightarrow> set sched = {0..<nat n}"
  unfolding arrival_order_def by (metis mset_eq_setD set_upt)

lemma arrival_order_length: "arrival_order n sched \<Longrightarrow> length sched = nat n"
  unfolding arrival_order_def by (metis mset_eq_length length_upt diff_zero)

lemma map_filter_cong_set:
  "(\<And>x. x \<in> set xs \<Longrightarrow> f x = g x) \<Longrightarrow> List.map_filter f xs = List.map_filter g xs"
  by (induction xs) (auto simp: List.map_filter_simps split: option.splits)

lemma map_filter_Nil_iff: "List.map_filter f xs = [] \<longleftrightarrow> (\<forall>x \<in> set xs. f x = None)"
  by (induction xs) (auto simp: List.map_filter_simps split: option.splits)

text \<open>The events of a sampling run, whichever way the loop ends.\<close>

lemma Ping_sampling_events:
  assumes "resolveAddr env addr = (Returns (host, ip, port, None), evs)"
      and "0 \<le> Count (defaulted config)"
  shows "attempts (snd (snd (Ping env sched addr config))) =
           map (\<lambda>i. (i, err (fst (worker env (strategy env (defaulted config) host (JoinHostPort env ip port)) i))))
               [0..<nat (Count (defaulted config))]"
proof -
  have quiet: "attempts evs = []"
    using resolveAddr_quiet [of env addr] assms(1) by simp
  show ?thesis
    by (simp add: Ping_sampling [OF assms] quiet workers_events attempts_Cons split: sum.splits)
qed

lemma Ping_no_sampling_events:
  assumes "resolveAddr env addr = (r, evs)"
      and "(\<exists>msg. r = Panics msg) \<or> (\<exists>host ip port e. r = Returns (host, ip, port, Some e))
           \<or> Count (defaulted config) < 0"
  shows "attempts (snd (snd (Ping env sched addr config))) = []"
proof -
  have quiet: "attempts evs = []"
    using resolveAddr_quiet [of env addr] assms(1) by simp
  from assms(2) show ?thesis
  proof (elim disjE exE)
    fix msg assume "r = Panics msg"
    then show ?thesis using assms(1) quiet by (simp add: Ping_panic)
  next
    fix host ip port e assume "r = Returns (host, ip, port, Some e)"
    then show ?thesis using assms(1) quiet by (simp add: Ping_error)
  next
    assume neg: "Count (defaulted config) < 0"
    show ?thesis
    proof (cases rule: resolveAddr_cases [of env addr])
      case (panic msg evs')
      then show ?thesis using assms(1) quiet by (simp add: Ping_panic)
    next
      case (error host ip port e evs')
      then show ?thesis using assms(1) quiet by (simp add: Ping_error)
    next
      case (ok host ip port evs')
      then show ?thesis using assms(1) quiet neg by (simp add: Ping_negative)
    qed
  qed
qed


lemma Ping_config: "fst (snd (Ping env sched addr config)) = defaulted config"
  by (cases rule: resolveAddr_cases [of env addr])
     (simp_all add: Ping_unfold Let_def split: sum.splits)

lemma defaulted_Ip: "defaulted (config\<lparr>Ip := ip\<rparr>) = (defaulted config)\<lparr>Ip := ip\<rparr>"
  by (simp add: defaulted_def)

lemma defaulted_zero: "Count config = 0 \<Longrightarrow> defaulted config = defaulted (config\<lparr>Count := 1\<rparr>)"
  by (simp add: defaulted_def)

section \<open>Runs in the example environment\<close>

text \<open>
  Five runs against a listener on 127.0.0.1:443, address \<open>:443\<close>, TCP only: three
  workers of which the first two fail, arriving in the order 2, 1, 0; three workers
  that all succeed, arriving in the order 2, 0, 1; and one worker with the count given
  as 0, as 1 and as -1.
\<close>

lemmas run_simps = Ping_def resolveAddr_def loopback_def split_last_colon_def tcp_config_def Let_def
       strategy_def worker_def timeit_def Second_def PingResult_zero_def upt_conv_Cons

lemma run_two_fail:
  "Ping (loopback True [0, 1]) [2, 1, 0] '':443'' (tcp_config 3) =
     (Returns (PingResult_zero\<lparr>Host := ''localhost'', IPAddr := ''127.0.0.1'', Address := '':443''\<rparr>,
               Some (OpError ''i/o timeout'')),
      tcp_config 3,
      [Looked ''localhost'',
       Dialed (Probe 0) \<lparr>Timeout = 3 * Second\<rparr> ''tcp'' ''[::1]:443'' (Some (OpError ''connection refused'')),
       Dialed (Probe 1) \<lparr>Timeout = 3 * Second\<rparr> ''tcp'' ''127.0.0.1:443'' None,
       Dialed (Worker 0) \<lparr>Timeout = 5 * Second\<rparr> ''tcp'' ''127.0.0.1:443'' (Some (OpError ''connection reset'')),
       Dialed (Worker 1) \<lparr>Timeout = 5 * Second\<rparr> ''tcp'' ''127.0.0.1:443'' (Some (OpError ''i/o timeout'')),
       Dialed (Worker 2) \<lparr>Timeout = 5 * Second\<rparr> ''tcp'' ''127.0.0.1:443'' None])"
  by (simp add: run_simps)

lemma run_all_ok:
  "Ping (loopback True []) [2, 0, 1] '':443'' (tcp_config 3) =
     (Returns (PingResult_zero\<lparr>Host := ''localhost'', IPAddr := ''127.0.0.1'', Address := '':443'', Count_r := 3\<rparr>,
               None),
      tcp_config 3,
      [Looked ''localhost'',
       Dialed (Probe 0) \<lparr>Timeout = 3 * Second\<rparr> ''tcp'' ''[::1]:443'' (Some (OpError ''connection refused'')),
       Dialed (Probe 1) \<lparr>Timeout = 3 * Second\<rparr> ''tcp'' ''127.0.0.1:443'' None,
       Dialed (Worker 0) \<lparr>Timeout = 5 * Second\<rparr> ''tcp'' ''127.0.0.1:443'' None,
       Dialed (Worker 1) \<lparr>Timeout = 5 * Second\<rparr> ''tcp'' ''127.0.0.1:443'' None,
       Dialed (Worker 2) \<lparr>Timeout = 5 * Second\<rparr> ''tcp'' ''127.0.0.1:443'' None,
       Summarized [3 / 1000, 1 / 1000, 2 / 1000]])"
  by (simp add: run_simps)

lemma run_zero:
  "Ping (loopback True []) [0] '':443'' (tcp_config 0) =
     (Returns (PingResult_zero\<lparr>Host := ''localhost'', IPAddr := ''127.0.0.1'', Address := '':443'', Count_r := 1\<rparr>,
               None),
      tcp_config 1,
      [Looked ''localhost'',
       Dialed (Probe 0) \<lparr>Timeout = 3 * Second\<rparr> ''tcp'' ''[::1]:443'' (Some (OpError ''connection refused'')),
       Dialed (Probe 1) \<lparr>Timeout = 3 * Second\<rparr> ''tcp'' ''127.0.0.1:443'' None,
       Dialed (Worker 0) \<lparr>Timeout = 5 * Second\<rparr> ''tcp'' ''127.0.0.1:443'' None,
       Summarized [1 / 1000]])"
  by (simp add: run_simps)

lemma run_one:
  "Ping (loopback True []) [0] '':443'' (tcp_config 1) =
     (Returns (PingResult_zero\<lparr>Host := ''localhost'', IPAddr := ''127.0.0.1'', Address := '':443'', Count_r := 1\<rparr>,
               None),
      tcp_config 1,
      [Looked ''localhost'',
       Dialed (Probe 0) \<lparr>Timeout = 3 * Second\<rparr> ''tcp'' ''[::1]:443'' (Some (OpError ''connection refused'')),
       Dialed (Probe 1) \<lparr>Timeout = 3 * Second\<rparr> ''tcp'' ''127.0.0.1:443'' None,
       Dialed (Worker 0) \<lparr>Timeout = 5 * Second\<rparr> ''tcp'' ''127.0.0.1:443'' None,
       Summarized [1 / 1000]])"
  by (simp add: run_simps)

lemma run_negative:
  "Ping (loopback True []) [0] '':443'' (tcp_config (- 1)) =
     (Panics ''makechan: size out of range'',
      tcp_config (- 1),
      [Looked ''localhost'',
       Dialed (Probe 0) \<lparr>Timeout = 3 * Second\<rparr> ''tcp'' ''[::1]:443'' (Some (OpError ''connection refused'')),
       Dialed (Probe 1) \<lparr>Timeout = 3 * Second\<rparr> ''tcp'' ''127.0.0.1:443'' None])"
  by (simp add: run_simps)

section \<open>The channel delivers every value once\<close>

lemma sampler_invI:
  "distinct (got s @ results_buf s) \<Longrightarrow>
   set (got s @ results_buf s) \<inter> running s = {} \<Longrightarrow>
   set (got s @ results_buf s) \<union> running s = {0..<n} \<Longrightarrow>
   exiting s \<subseteq> set (got s @ results_buf s) \<Longrightarrow>
   wg s = card (running s) + card (exiting s) \<Longrightarrow>
   (results_closed s \<longrightarrow> wg s = 0) \<Longrightarrow>
   loop_inv w s \<Longrightarrow> sampler_inv w n s"
  unfolding sampler_inv_def by blast

lemma sampler_invD:
  assumes "sampler_inv w n s"
  shows "distinct (got s @ results_buf s)"
    and "set (got s @ results_buf s) \<inter> running s = {}"
    and "set (got s @ results_buf s) \<union> running s = {0..<n}"
    and "exiting s \<subseteq> set (got s @ results_buf s)"
    and "wg s = card (running s) + card (exiting s)"
    and "results_closed s \<longrightarrow> wg s = 0"
    and "loop_inv w s"
  using assms unfolding sampler_inv_def by blast+

lemma inv_launched: "sampler_inv w n (launched n)"
  by (rule sampler_invI) (simp_all add: loop_inv_def launched_def)

lemma finite_parts:
  assumes "sampler_inv w n s"
  shows "finite (running s)" and "finite (exiting s)"
proof -
  have "running s \<subseteq> {0..<n}" using sampler_invD(3) [OF assms] by blast
  then show "finite (running s)" by (rule finite_subset) simp
  show "finite (exiting s)" using sampler_invD(4) [OF assms] by (rule finite_subset) simp
qed

lemma wg_zero:
  assumes "sampler_inv w n s" and "wg s = 0"
  shows "running s = {}" and "exiting s = {}"
  using finite_parts [OF assms(1)] sampler_invD(5) [OF assms(1)] assms(2) by simp_all

lemma inv_send:
  assumes inv: "sampler_inv w n s" and i: "i \<in> running s"
  shows "sampler_inv w n (s\<lparr>running := running s - {i}, exiting := insert i (exiting s),
                        results_buf := results_buf s @ [i]\<rparr>)"
proof (rule sampler_invI)
  note fin = finite_parts [OF inv]
  note d = sampler_invD [OF inv]
  let ?t = "s\<lparr>running := running s - {i}, exiting := insert i (exiting s),
                        results_buf := results_buf s @ [i]\<rparr>"
  have fresh: "i \<notin> set (got s @ results_buf s)" using d(2) i by blast
  then have notex: "i \<notin> exiting s" using d(4) by blast
  have pos: "0 < card (running s)" using fin i by (auto simp: card_gt_0_iff)
  show "distinct (got ?t @ results_buf ?t)" using d(1) fresh by simp
  show "set (got ?t @ results_buf ?t) \<inter> running ?t = {}" using d(2) by auto
  show "set (got ?t @ results_buf ?t) \<union> running ?t = {0..<n}" using d(3) i by auto
  show "exiting ?t \<subseteq> set (got ?t @ results_buf ?t)" using d(4) by auto
  have "card (running s - {i}) = card (running s) - 1"
    using fin i by (simp add: card_Diff_singleton)
  moreover have "card (insert i (exiting s)) = card (exiting s) + 1"
    using fin notex by simp
  ultimately show "wg ?t = card (running ?t) + card (exiting ?t)"
    using d(5) pos by simp
  show "results_closed ?t \<longrightarrow> wg ?t = 0" using d(5,6) pos by simp
  have "\<forall>ds. returned s \<noteq> Some (Inr ds)"
    using d(7) i unfolding loop_inv_def by (auto split: option.splits sum.splits)
  then show "loop_inv w ?t"
    using d(7) unfolding loop_inv_def by (simp split: option.splits sum.splits)
qed

lemma inv_wg_done:
  assumes inv: "sampler_inv w n s" and i: "i \<in> exiting s"
  shows "sampler_inv w n (s\<lparr>exiting := exiting s - {i}, wg := wg s - 1\<rparr>)"
proof (rule sampler_invI)
  note fin = finite_parts [OF inv]
  note d = sampler_invD [OF inv]
  let ?t = "s\<lparr>exiting := exiting s - {i}, wg := wg s - 1\<rparr>"
  have pos: "0 < card (exiting s)" using fin i by (auto simp: card_gt_0_iff)
  show "distinct (got ?t @ results_buf ?t)" using d(1) by simp
  show "set (got ?t @ results_buf ?t) \<inter> running ?t = {}" using d(2) by simp
  show "set (got ?t @ results_buf ?t) \<union> running ?t = {0..<n}" using d(3) by simp
  show "exiting ?t \<subseteq> set (got ?t @ results_buf ?t)" using d(4) by auto
  have "card (exiting s - {i}) = card (exiting s) - 1"
    using fin i by (simp add: card_Diff_singleton)
  then show "wg ?t = card (running ?t) + card (exiting ?t)"
    using d(5) pos by simp
  show "results_closed ?t \<longrightarrow> wg ?t = 0" using d(5,6) pos by simp
  show "loop_inv w ?t"
    using d(7) unfolding loop_inv_def by (simp split: option.splits sum.splits)
qed

lemma inv_close:
  assumes inv: "sampler_inv w n s" and z: "wg s = 0"
  shows "sampler_inv w n (s\<lparr>results_closed := True\<rparr>)"
proof (rule sampler_invI)
  note d = sampler_invD [OF inv]
  let ?t = "s\<lparr>results_closed := True\<rparr>"
  show "distinct (got ?t @ results_buf ?t)" using d(1) by simp
  show "set (got ?t @ results_buf ?t) \<inter> running ?t = {}" using d(2) by simp
  show "set (got ?t @ results_buf ?t) \<union> running ?t = {0..<n}" using d(3) by simp
  show "exiting ?t \<subseteq> set (got ?t @ results_buf ?t)" using d(4) by simp
  show "wg ?t = card (running ?t) + card (exiting ?t)" using d(5) by simp
  show "results_closed ?t \<longrightarrow> wg ?t = 0" using z by simp
  show "loop_inv w ?t"
    using d(7) unfolding loop_inv_def by (simp split: option.splits sum.splits)
qed

lemma inv_receive_error:
  assumes inv: "sampler_inv w n s" and r: "returned s = None" and b: "results_buf s = i # rest"
    and e: "err (w i) = Some e"
  shows "sampler_inv w n (s\<lparr>results_buf := rest, got := got s @ [i], returned := Some (Inl e)\<rparr>)"
proof (rule sampler_invI)
  note d = sampler_invD [OF inv]
  let ?t = "s\<lparr>results_buf := rest, got := got s @ [i], returned := Some (Inl e)\<rparr>"
  have same: "got ?t @ results_buf ?t = got s @ results_buf s" using b by simp
  show "distinct (got ?t @ results_buf ?t)" using d(1) unfolding same .
  show "set (got ?t @ results_buf ?t) \<inter> running ?t = {}" using d(2) unfolding same by simp
  show "set (got ?t @ results_buf ?t) \<union> running ?t = {0..<n}" using d(3) unfolding same by simp
  show "exiting ?t \<subseteq> set (got ?t @ results_buf ?t)" using d(4) unfolding same by simp
  show "wg ?t = card (running ?t) + card (exiting ?t)" using d(5) by simp
  show "results_closed ?t \<longrightarrow> wg ?t = 0" using d(6) by simp
  show "loop_inv w ?t"
    using d(7) r e unfolding loop_inv_def by simp
qed

lemma inv_receive:
  assumes inv: "sampler_inv w n s" and r: "returned s = None" and b: "results_buf s = i # rest"
    and e: "err (w i) = None"
  shows "sampler_inv w n (s\<lparr>results_buf := rest, got := got s @ [i],
                        durations_acc := durations_acc s @ [seconds (w i)]\<rparr>)"
proof (rule sampler_invI)
  note d = sampler_invD [OF inv]
  let ?t = "s\<lparr>results_buf := rest, got := got s @ [i],
                        durations_acc := durations_acc s @ [seconds (w i)]\<rparr>"
  have same: "got ?t @ results_buf ?t = got s @ results_buf s" using b by simp
  show "distinct (got ?t @ results_buf ?t)" using d(1) unfolding same .
  show "set (got ?t @ results_buf ?t) \<inter> running ?t = {}" using d(2) unfolding same by simp
  show "set (got ?t @ results_buf ?t) \<union> running ?t = {0..<n}" using d(3) unfolding same by simp
  show "exiting ?t \<subseteq> set (got ?t @ results_buf ?t)" using d(4) unfolding same by simp
  show "wg ?t = card (running ?t) + card (exiting ?t)" using d(5) by simp
  show "results_closed ?t \<longrightarrow> wg ?t = 0" using d(6) by simp
  show "loop_inv w ?t"
    using d(7) r e unfolding loop_inv_def by simp
qed

lemma inv_drained:
  assumes inv: "sampler_inv w n s" and r: "returned s = None" and b: "results_buf s = []"
    and c: "results_closed s"
  shows "sampler_inv w n (s\<lparr>returned := Some (Inr (durations_acc s))\<rparr>)"
proof (rule sampler_invI)
  note d = sampler_invD [OF inv]
  let ?t = "s\<lparr>returned := Some (Inr (durations_acc s))\<rparr>"
  have z: "wg s = 0" using d(6) c by simp
  show "distinct (got ?t @ results_buf ?t)" using d(1) by simp
  show "set (got ?t @ results_buf ?t) \<inter> running ?t = {}" using d(2) by simp
  show "set (got ?t @ results_buf ?t) \<union> running ?t = {0..<n}" using d(3) by simp
  show "exiting ?t \<subseteq> set (got ?t @ results_buf ?t)" using d(4) by simp
  show "wg ?t = card (running ?t) + card (exiting ?t)" using d(5) by simp
  show "results_closed ?t \<longrightarrow> wg ?t = 0" using z by simp
  show "loop_inv w ?t"
    using d(7) r b wg_zero(1) [OF inv z] unfolding loop_inv_def by simp
qed

lemma inv_step:
  assumes "step w n s t" and "sampler_inv w n s"
  shows "sampler_inv w n t"
  using assms
proof (induction rule: step.induct)
  case (send i s)
  then show ?case by (intro inv_send)
next
  case (wg_done i s)
  then show ?case by (intro inv_wg_done)
next
  case (close s)
  then show ?case by (intro inv_close)
next
  case (receive_error s i rest e)
  then show ?case by (intro inv_receive_error)
next
  case (receive s i rest)
  then show ?case by (intro inv_receive)
next
  case (drained s)
  then show ?case by (intro inv_drained)
qed

lemma inv_reachable:
  "(step w n)\<^sup>*\<^sup>* (launched n) s \<Longrightarrow> sampler_inv w n s"
  by (induction rule: rtranclp_induct) (auto intro: inv_launched inv_step)


text \<open>A send never finds the channel full.\<close>

lemma send_never_blocks:
  assumes inv: "sampler_inv w n s" and i: "i \<in> running s"
  shows "length (results_buf s) < n"
proof -
  note d = sampler_invD [OF inv]
  have "card (set (got s @ results_buf s)) = length (got s @ results_buf s)"
    using d(1) by (rule distinct_card)
  moreover have "card (set (got s @ results_buf s) \<union> running s)
      = card (set (got s @ results_buf s)) + card (running s)"
    using d(2) finite_parts(1) [OF inv] by (intro card_Un_disjoint) auto
  moreover have "0 < card (running s)"
    using finite_parts(1) [OF inv] i by (auto simp: card_gt_0_iff)
  ultimately show ?thesis
    using d(3) by simp
qed

text \<open>As long as the loop has not ended, something can happen.\<close>

lemma progress:
  assumes inv: "sampler_inv w n s" and r: "returned s = None"
  shows "\<exists>t. step w n s t"
proof (cases "results_buf s")
  case (Cons i rest)
  show ?thesis
  proof (cases "err (w i)")
    case None
    from step.receive [where w = w, OF r Cons None] show ?thesis by blast
  next
    case (Some e)
    from step.receive_error [where w = w, OF r Cons Some] show ?thesis by blast
  qed
next
  case Nil
  show ?thesis
  proof (cases "running s = {}")
    case False
    then obtain i where i: "i \<in> running s" by blast
    from step.send [OF i send_never_blocks [OF inv i]] show ?thesis by blast
  next
    case True
    show ?thesis
    proof (cases "exiting s = {}")
      case False
      then obtain i where "i \<in> exiting s" by blast
      from step.wg_done [OF this] show ?thesis by blast
    next
      case empty: True
      have z: "wg s = 0" using sampler_invD(5) [OF inv] True empty by simp
      show ?thesis
      proof (cases "results_closed s")
        case True
        from step.drained [OF r Nil True] show ?thesis by blast
      next
        case False
        from step.close [OF z False] show ?thesis by blast
      qed
    qed
  qed
qed

text \<open>Every step makes the state smaller, so no run goes on for ever.\<close>

lemma step_decreases:
  assumes "step w n s t" and inv: "sampler_inv w n s"
  shows "sampler_size t < sampler_size s"
  using assms
proof (induction rule: step.induct)
  case (send i s)
  have "0 < card (running s)"
    using finite_parts(1) [OF send.prems] send.hyps(1) by (auto simp: card_gt_0_iff)
  moreover have "card (running s - {i}) = card (running s) - 1"
    using finite_parts(1) [OF send.prems] send.hyps(1) by (simp add: card_Diff_singleton)
  moreover have "card (insert i (exiting s)) \<le> card (exiting s) + 1"
    using finite_parts(2) [OF send.prems] by (simp add: card_insert_if)
  ultimately show ?case by (simp add: sampler_size_def)
next
  case (wg_done i s)
  have "0 < card (exiting s)"
    using finite_parts(2) [OF wg_done.prems] wg_done.hyps by (auto simp: card_gt_0_iff)
  moreover have "card (exiting s - {i}) = card (exiting s) - 1"
    using finite_parts(2) [OF wg_done.prems] wg_done.hyps by (simp add: card_Diff_singleton)
  ultimately show ?case by (simp add: sampler_size_def)
next
  case (close s)
  then show ?case by (simp add: sampler_size_def)
next
  case (receive_error s i rest e)
  then show ?case by (simp add: sampler_size_def)
next
  case (receive s i rest)
  then show ?case by (simp add: sampler_size_def)
next
  case (drained s)
  then show ?case by (simp add: sampler_size_def)
qed

lemma loop_ends:
  assumes "sampler_inv w n s"
  shows "\<exists>t. (step w n)\<^sup>*\<^sup>* s t \<and> returned t \<noteq> None"
  using assms
proof (induction "sampler_size s" arbitrary: s rule: less_induct)
  case less
  show ?case
  proof (cases "returned s")
    case (Some res)
    then show ?thesis by auto
  next
    case None
    from progress [OF less.prems None] obtain u where u: "step w n s u" by blast
    from less.hyps [OF step_decreases [OF u less.prems] inv_step [OF u less.prems]]
    obtain t where "(step w n)\<^sup>*\<^sup>* u t" "returned t \<noteq> None" by blast
    with u show ?thesis by (meson converse_rtranclp_into_rtranclp)
  qed
qed

lemma no_infinite_run:
  assumes start: "\<sigma> 0 = launched n" and steps: "\<And>k. step w n (\<sigma> k) (\<sigma> (Suc k))"
  shows False
proof -
  have inv: "sampler_inv w n (\<sigma> k)" for k
    by (induction k) (simp_all add: start inv_launched inv_step [OF steps])
  have "sampler_size (\<sigma> k) + k \<le> sampler_size (\<sigma> 0)" for k
  proof (induction k)
    case 0
    show ?case by simp
  next
    case (Suc k)
    from step_decreases [OF steps inv, of k] Suc show ?case by simp
  qed
  from this [of "Suc (sampler_size (\<sigma> 0))"] show False by simp
qed

lemma collect_after_successes:
  "list_all (\<lambda>j. err (w j) = None) g \<Longrightarrow>
   collect (map w (g @ xs)) acc = collect (map w xs) (acc @ map (\<lambda>j. seconds (w j)) g)"
  by (induction g arbitrary: acc) simp_all

text \<open>
  What the loop ends with is what \<open>collect\<close> computes from the workers' values in some
  arrival order.
\<close>

lemma loop_result:
  assumes inv: "sampler_inv w n s" and res: "returned s = Some res"
  shows "\<exists>sched. arrival_order (int n) sched \<and> collect (map w sched) [] = res"
proof -
  note d = sampler_invD [OF inv]
  obtain rs where rs: "set rs = running s" "distinct rs"
    using finite_distinct_list [OF finite_parts(1) [OF inv]] by blast
  define sched where "sched = got s @ results_buf s @ rs"
  have "distinct sched" using d(1,2) rs by (auto simp: sched_def)
  moreover have "set sched = {0..<n}" using d(3) rs by (auto simp: sched_def)
  ultimately have "mset sched = mset [0..<n]"
    by (metis distinct_upt set_eq_iff_mset_eq_distinct set_upt)
  then have order: "arrival_order (int n) sched" by (simp add: arrival_order_def)
  have "collect (map w sched) [] = res"
  proof (cases res)
    case (Inl e)
    with d(7) res have g: "got s \<noteq> []" "list_all (\<lambda>j. err (w j) = None) (butlast (got s))"
      "err (w (last (got s))) = Some e"
      by (simp_all add: loop_inv_def)
    have "sched = butlast (got s) @ (last (got s) # results_buf s @ rs)"
      using g(1) by (simp add: sched_def)
    then have "collect (map w sched) [] =
        collect (map w (last (got s) # results_buf s @ rs))
          ([] @ map (\<lambda>j. seconds (w j)) (butlast (got s)))"
      by (simp only: collect_after_successes [OF g(2)])
    then show ?thesis
      using g(3) Inl by simp
  next
    case (Inr ds)
    with d(7) res have g: "list_all (\<lambda>j. err (w j) = None) (got s)"
      "ds = map (\<lambda>j. seconds (w j)) (got s)" "results_buf s = []" "running s = {}"
      by (simp_all add: loop_inv_def)
    have "sched = got s @ []" using g(3,4) rs by (simp add: sched_def)
    then have "collect (map w sched) [] =
        collect (map w []) ([] @ map (\<lambda>j. seconds (w j)) (got s))"
      by (simp only: collect_after_successes [OF g(1)])
    then show ?thesis
      using g(2) Inr by simp
  qed
  with order show ?thesis by blast
qed


text \<open>Conversely, every arrival order happens in some run.\<close>

lemma sends_in_order:
  assumes "distinct (xs @ ys)" and "set (xs @ ys) = {0..<n}"
  shows "(step w n)\<^sup>*\<^sup>* (launched n)
           \<lparr>running = set ys, exiting = set xs, wg = n, results_buf = xs, results_closed = False,
            got = [], durations_acc = [], returned = None\<rparr>"
  using assms
proof (induction xs arbitrary: ys rule: rev_induct)
  case Nil
  then show ?case by (simp add: launched_def)
next
  case (snoc x xs)
  let ?s = "\<lparr>running = set (x # ys), exiting = set xs, wg = n, results_buf = xs,
             results_closed = False, got = [], durations_acc = [], returned = None\<rparr>"
  have before: "(step w n)\<^sup>*\<^sup>* (launched n) ?s"
    using snoc.prems by (intro snoc.IH) simp_all
  have "length (xs @ x # ys) = card (set (xs @ x # ys))"
    using snoc.prems(1) by (metis append.assoc append_Cons append_Nil distinct_card)
  then have room: "length (results_buf ?s) < n"
    using snoc.prems(2) by simp
  have mem: "x \<in> running ?s" by simp
  have rest: "x \<notin> set ys"
    using snoc.prems(1) by simp
  from step.send [of x ?s n w, OF mem room]
  have "step w n ?s \<lparr>running = set ys, exiting = set (xs @ [x]), wg = n, results_buf = xs @ [x],
             results_closed = False, got = [], durations_acc = [], returned = None\<rparr>"
    using rest by simp
  with before show ?case by (rule rtranclp.rtrancl_into_rtrancl)
qed

lemma all_workers_done:
  assumes "finite E"
  shows "(step w n)\<^sup>*\<^sup>*
           \<lparr>running = {}, exiting = E, wg = card E, results_buf = xs, results_closed = False,
            got = [], durations_acc = [], returned = None\<rparr>
           \<lparr>running = {}, exiting = {}, wg = 0, results_buf = xs, results_closed = False,
            got = [], durations_acc = [], returned = None\<rparr>"
  using assms
proof (induction E rule: finite_induct)
  case empty
  show ?case by simp
next
  case (insert x F)
  let ?s = "\<lparr>running = {}, exiting = insert x F, wg = card (insert x F), results_buf = xs,
             results_closed = False, got = [], durations_acc = [], returned = None\<rparr>"
  have mem: "x \<in> exiting ?s" by simp
  have less: "insert x F - {x} = F" using insert.hyps(2) by simp
  from step.wg_done [of x ?s w n, OF mem]
  have "step w n ?s \<lparr>running = {}, exiting = F, wg = card F, results_buf = xs,
             results_closed = False, got = [], durations_acc = [], returned = None\<rparr>"
    using insert.hyps(1,2) by (simp add: less)
  with insert.IH show ?case by (rule converse_rtranclp_into_rtranclp [rotated])
qed

lemma loop_consumes:
  "\<exists>t. (step w n)\<^sup>*\<^sup>*
           \<lparr>running = {}, exiting = {}, wg = 0, results_buf = xs, results_closed = True,
            got = g, durations_acc = acc, returned = None\<rparr> t
       \<and> returned t = Some (collect (map w xs) acc)"
proof (induction xs arbitrary: g acc)
  case Nil
  let ?s = "\<lparr>running = {}, exiting = {}, wg = 0, results_buf = [], results_closed = True,
            got = g, durations_acc = acc, returned = None\<rparr>"
  have "step w n ?s (?s\<lparr>returned := Some (Inr (durations_acc ?s))\<rparr>)"
    by (rule step.drained) simp_all
  then have "(step w n)\<^sup>*\<^sup>* ?s (?s\<lparr>returned := Some (Inr (durations_acc ?s))\<rparr>)"
    by (rule r_into_rtranclp)
  moreover have "returned (?s\<lparr>returned := Some (Inr (durations_acc ?s))\<rparr>)
      = Some (collect (map w []) acc)"
    by simp
  ultimately show ?case by blast
next
  case (Cons x xs)
  let ?s = "\<lparr>running = {}, exiting = {}, wg = 0, results_buf = x # xs, results_closed = True,
            got = g, durations_acc = acc, returned = None\<rparr>"
  show ?case
  proof (cases "err (w x)")
    case (Some e)
    have "step w n ?s (?s\<lparr>results_buf := xs, got := got ?s @ [x], returned := Some (Inl e)\<rparr>)"
      by (rule step.receive_error [where w = w]) (simp_all add: Some)
    then have "(step w n)\<^sup>*\<^sup>* ?s
        (?s\<lparr>results_buf := xs, got := got ?s @ [x], returned := Some (Inl e)\<rparr>)"
      by (rule r_into_rtranclp)
    moreover have "returned (?s\<lparr>results_buf := xs, got := got ?s @ [x], returned := Some (Inl e)\<rparr>)
        = Some (collect (map w (x # xs)) acc)"
      using Some by simp
    ultimately show ?thesis by blast
  next
    case None
    have first: "step w n ?s
        \<lparr>running = {}, exiting = {}, wg = 0, results_buf = xs, results_closed = True,
         got = g @ [x], durations_acc = acc @ [seconds (w x)], returned = None\<rparr>"
      using step.receive [where w = w and s = ?s and i = x and rest = xs and n = n] None by simp
    from Cons.IH [of "g @ [x]" "acc @ [seconds (w x)]"]
    obtain t where "(step w n)\<^sup>*\<^sup>*
        \<lparr>running = {}, exiting = {}, wg = 0, results_buf = xs, results_closed = True,
         got = g @ [x], durations_acc = acc @ [seconds (w x)], returned = None\<rparr> t"
      and "returned t = Some (collect (map w xs) (acc @ [seconds (w x)]))"
      by blast
    with first None show ?thesis
      by (intro exI [of _ t]) (simp add: converse_rtranclp_into_rtranclp)
  qed
qed

lemma every_order_happens:
  assumes "arrival_order (int n) sched"
  shows "\<exists>t. (step w n)\<^sup>*\<^sup>* (launched n) t \<and> returned t = Some (collect (map w sched) [])"
proof -
  have m: "mset sched = mset [0..<n]" using assms by (simp add: arrival_order_def)
  have d: "distinct (sched @ [])"
    using m by (metis append_Nil2 distinct_upt mset_eq_imp_distinct_iff)
  have s: "set (sched @ []) = {0..<n}"
    using m by (metis append_Nil2 mset_eq_setD set_upt)
  have c: "card (set sched) = n"
    using s by simp
  have "(step w n)\<^sup>*\<^sup>* (launched n)
      \<lparr>running = {}, exiting = set sched, wg = card (set sched), results_buf = sched,
       results_closed = False, got = [], durations_acc = [], returned = None\<rparr>"
    using sends_in_order [OF d s, of w] c by simp
  also have "(step w n)\<^sup>*\<^sup>* \<dots>
      \<lparr>running = {}, exiting = {}, wg = 0, results_buf = sched,
       results_closed = False, got = [], durations_acc = [], returned = None\<rparr>"
    by (rule all_workers_done) simp
  also have "step w n \<dots>
      \<lparr>running = {}, exiting = {}, wg = 0, results_buf = sched,
       results_closed = True, got = [], durations_acc = [], returned = None\<rparr>"
    using step.close [of "\<lparr>running = {}, exiting = {}, wg = 0, results_buf = sched,
       results_closed = False, got = [], durations_acc = [], returned = None\<rparr>" w n] by simp
  finally have reach: "(step w n)\<^sup>*\<^sup>* (launched n)
      \<lparr>running = {}, exiting = {}, wg = 0, results_buf = sched,
       results_closed = True, got = [], durations_acc = [], returned = None\<rparr>" .
  from loop_consumes [of w n sched "[]" "[]"] obtain t where
    "(step w n)\<^sup>*\<^sup>* \<lparr>running = {}, exiting = {}, wg = 0, results_buf = sched,
       results_closed = True, got = [], durations_acc = [], returned = None\<rparr> t"
    "returned t = Some (collect (map w sched) [])" by blast
  with reach show ?thesis by (meson rtranclp_trans)
qed

text \<open>
  Together: the loop ends in every run, and the ways it can end are exactly the results
  of \<open>collect\<close> on the workers' values in some arrival order. This is what \<open>Ping\<close> above
  takes as its parameter \<open>sched\<close>.
\<close>

lemma sampler_refines_collect:
  "(\<exists>s. (step w n)\<^sup>*\<^sup>* (launched n) s \<and> returned s = Some res)
   \<longleftrightarrow> (\<exists>sched. arrival_order (int n) sched \<and> collect (map w sched) [] = res)"
proof
  assume "\<exists>s. (step w n)\<^sup>*\<^sup>* (launched n) s \<and> returned s = Some res"
  then obtain s where "(step w n)\<^sup>*\<^sup>* (launched n) s" and r: "returned s = Some res" by blast
  from loop_result [OF inv_reachable [OF this(1)] r]
  show "\<exists>sched. arrival_order (int n) sched \<and> collect (map w sched) [] = res" .
next
  assume "\<exists>sched. arrival_order (int n) sched \<and> collect (map w sched) [] = res"
  then obtain sched where "arrival_order (int n) sched" and c: "collect (map w sched) [] = res"
    by blast
  from every_order_happens [OF this(1), of w] c
  show "\<exists>s. (step w n)\<^sup>*\<^sup>* (launched n) s \<and> returned s = Some res" by auto
qed

text \<open>
  When the loop ends at the end of the channel it has received the value of every
  worker, once, and none carried an error: \<open>durations\<close> has \<open>n\<close> elements.
\<close>

lemma loop_end_has_all_durations:
  assumes reach: "(step w n)\<^sup>*\<^sup>* (launched n) s" and r: "returned s = Some (Inr ds)"
  shows "length ds = n"
    and "mset ds = mset (map (\<lambda>i. seconds (w i)) [0..<n])"
    and "\<forall>i < n. err (w i) = None"
proof -
  note inv = inv_reachable [OF reach]
  note d = sampler_invD [OF inv]
  from d(7) r have g: "list_all (\<lambda>j. err (w j) = None) (got s)"
    "ds = map (\<lambda>j. seconds (w j)) (got s)" "results_buf s = []" "running s = {}"
    by (simp_all add: loop_inv_def)
  have dist: "distinct (got s)" and all: "set (got s) = {0..<n}"
    using d(1,3) g(3,4) by simp_all
  then have m: "mset (got s) = mset [0..<n]"
    by (metis distinct_upt set_eq_iff_mset_eq_distinct set_upt)
  show "length ds = n"
    using mset_eq_length [OF m] g(2) by simp
  have "mset ds = image_mset (\<lambda>i. seconds (w i)) (mset (got s))"
    using g(2) by simp
  then show "mset ds = mset (map (\<lambda>i. seconds (w i)) [0..<n])"
    using m by simp
  show "\<forall>i < n. err (w i) = None"
    using g(1) all by (auto simp: list_all_iff)
qed

text \<open>
  When the loop returns early, the error is that of the value it received last, and
  every value received before had none.
\<close>

lemma early_return_is_first_error:
  assumes reach: "(step w n)\<^sup>*\<^sup>* (launched n) s" and r: "returned s = Some (Inl e)"
  shows "got s \<noteq> []" and "err (w (last (got s))) = Some e"
    and "list_all (\<lambda>j. err (w j) = None) (butlast (got s))"
  using sampler_invD(7) [OF inv_reachable [OF reach]] r by (simp_all add: loop_inv_def)

text \<open>Once the loop has ended, nothing changes how it ended.\<close>

lemma returned_stays:
  assumes "step w n s t" and "returned s = Some res"
  shows "returned t = Some res"
  using assms by (induction rule: step.induct) simp_all

section \<open>The two models of Ping agree\<close>

lemma started_launched:
  "started env f (launched n) = concat (map (\<lambda>i. snd (worker env f i)) [0..<n])"
  by (simp add: started_def launched_def)

lemma started_events:
  "attempts (started env (strategy env config host target) (launched n))
     = map (\<lambda>i. (i, err (fst (worker env (strategy env config host target) i)))) [0..<n]
   \<and> summaries (started env (strategy env config host target) (launched n)) = []"
  by (simp add: started_launched workers_events)

text \<open>
  The two models of \<open>Ping\<close> agree wherever the runtime makes the channel: the runs of the
  goroutines end as the function does for some arrival order.
\<close>

lemma Ping_run_then_Ping:
  assumes run: "Ping_run maxchan env addr config out"
      and fits: "Count (defaulted config) \<le> maxchan"
  shows "\<exists>sched. arrival_order (Count (defaulted config)) sched \<and> Ping env sched addr config = out"
  using run
proof (cases rule: Ping_run.cases)
  case (resolve_panics msg evs)
  have "arrival_order (Count (defaulted config)) [0..<nat (Count (defaulted config))]"
    by (simp add: arrival_order_def)
  then show ?thesis using resolve_panics by (auto simp: Ping_panic)
next
  case (resolve_fails host ipAddr port e evs)
  have "arrival_order (Count (defaulted config)) [0..<nat (Count (defaulted config))]"
    by (simp add: arrival_order_def)
  then show ?thesis using resolve_fails by (auto simp: Ping_error)
next
  case (makechan_panics host ipAddr port evs)
  have "arrival_order (Count (defaulted config)) [0..<nat (Count (defaulted config))]"
    by (simp add: arrival_order_def)
  moreover have "Count (defaulted config) < 0" using makechan_panics(3) fits by simp
  ultimately show ?thesis using makechan_panics(1,2) by (auto simp: Ping_negative)
next
  case (returns_error host ipAddr port evs n f s e)
  from loop_result [OF inv_reachable [OF returns_error(7)] returns_error(8)]
  obtain sched where order: "arrival_order (int n) sched"
    and coll: "collect (map (\<lambda>i. fst (worker env f i)) sched) [] = Inl e" by blast
  have order': "arrival_order (Count (defaulted config)) sched"
    using order returns_error(3,5) by simp
  have "Ping env sched addr config = out"
    using coll unfolding Ping_sampling [OF returns_error(2,3)] returns_error(1,5,6)
    by (simp add: started_launched)
  with order' show ?thesis by blast
next
  case (returns_summary host ipAddr port evs n f s durations)
  from loop_result [OF inv_reachable [OF returns_summary(7)] returns_summary(8)]
  obtain sched where order: "arrival_order (int n) sched"
    and coll: "collect (map (\<lambda>i. fst (worker env f i)) sched) [] = Inr durations" by blast
  have order': "arrival_order (Count (defaulted config)) sched"
    using order returns_summary(3,5) by simp
  have "Ping env sched addr config = out"
    using coll unfolding Ping_sampling [OF returns_summary(2,3)] returns_summary(1,5,6)
    by (simp add: started_launched)
  with order' show ?thesis by blast
qed

lemma Ping_then_Ping_run:
  assumes order: "arrival_order (Count (defaulted config)) sched"
      and fits: "Count (defaulted config) \<le> maxchan"
  shows "Ping_run maxchan env addr config (Ping env sched addr config)"
proof (cases rule: resolveAddr_cases [of env addr])
  case (panic msg evs)
  then show ?thesis by (simp add: Ping_panic Ping_run.resolve_panics)
next
  case (error host ip port e evs)
  then show ?thesis by (simp add: Ping_error Ping_run.resolve_fails)
next
  case (ok host ip port evs)
  show ?thesis
  proof (cases "Count (defaulted config) < 0")
    case True
    then show ?thesis
      using ok by (simp add: Ping_negative Ping_run.makechan_panics)
  next
    case False
    then have count: "0 \<le> Count (defaulted config)" by simp
    define n where "n = nat (Count (defaulted config))"
    define f where "f = strategy env (defaulted config) host (JoinHostPort env ip port)"
    have order': "arrival_order (int n) sched" using order count by (simp add: n_def)
    from every_order_happens [OF order', of "\<lambda>i. fst (worker env f i)"]
    obtain s where reach: "(step (\<lambda>i. fst (worker env f i)) n)\<^sup>*\<^sup>* (launched n) s"
      and ret: "returned s = Some (collect (map (\<lambda>i. fst (worker env f i)) sched) [])" by blast
    show ?thesis
    proof (cases "collect (map (\<lambda>i. fst (worker env f i)) sched) []")
      case (Inl e)
      from Ping_run.returns_error [OF ok count fits n_def f_def reach, of e] ret Inl
      show ?thesis
        unfolding Ping_sampling [OF ok count]
        by (simp add: started_launched f_def n_def)
    next
      case (Inr durations)
      from Ping_run.returns_summary [OF ok count fits n_def f_def reach, of durations] ret Inr
      show ?thesis
        unfolding Ping_sampling [OF ok count]
        by (simp add: started_launched f_def n_def)
    qed
  qed
qed

lemma Ping_run_iff_Ping:
  assumes "Count (defaulted config) \<le> maxchan"
  shows "Ping_run maxchan env addr config out \<longleftrightarrow>
     (\<exists>sched. arrival_order (Count (defaulted config)) sched \<and> Ping env sched addr config = out)"
  using Ping_run_then_Ping [OF _ assms] Ping_then_Ping_run [OF _ assms] by blast

section \<open>The sampler\<close>

text \<open>
  Claim C1. Take any run of \<open>Ping\<close>, with any environment, address and configuration,
  and any arrival order of the workers' values. If at least one timed attempt of the run
  failed, then \<open>Ping\<close> returns an error, and that error is the first one in arrival
  order; \<open>summarize\<close> is not called at all during the run, on no subset of the durations;
  and the \<open>PingResult\<close> returned alongside the error carries the host, the address and
  the IP address only, all statistics fields being zero. (For the goroutines themselves:
  \<open>early_return_is_first_error\<close>, and \<open>loop_end_has_all_durations\<close>, by which the loop
  cannot reach the end of the channel once a worker has failed.)
\<close>

theorem Ping_first_error:
  assumes run: "Ping env sched addr config = (out, config', evs)"
      and order: "arrival_order (Count config') sched"
      and failed: "(i, Some e) \<in> set (attempts evs)"
  shows "\<exists>r e1 es. out = Returns (r, Some e1)
           \<and> errors_in_arrival_order sched evs = e1 # es
           \<and> summaries evs = []
           \<and> r = PingResult_zero\<lparr>Host := Host r, IPAddr := IPAddr r, Address := addr\<rparr>"
proof -
  have config': "config' = defaulted config"
    using Ping_config [of env sched addr config] run by simp
  have evs: "snd (snd (Ping env sched addr config)) = evs"
    using run by simp
  obtain r0 evs0 where res: "resolveAddr env addr = (r0, evs0)"
    by (cases "resolveAddr env addr")
  have sampling: "\<not> ((\<exists>msg. r0 = Panics msg) \<or> (\<exists>host ip port e. r0 = Returns (host, ip, port, Some e))
           \<or> Count (defaulted config) < 0)"
  proof
    assume "(\<exists>msg. r0 = Panics msg) \<or> (\<exists>host ip port e. r0 = Returns (host, ip, port, Some e))
           \<or> Count (defaulted config) < 0"
    from Ping_no_sampling_events [OF res this, of sched] evs failed
    show False by simp
  qed
  then obtain host ip port where r0: "r0 = Returns (host, ip, port, None)"
    using resolveAddr_cases [of env addr] res by (metis fst_conv)
  from sampling have count: "0 \<le> Count (defaulted config)" by simp
  note res' = res [unfolded r0]
  define w where "w = (\<lambda>i. fst (worker env (strategy env (defaulted config) host (JoinHostPort env ip port)) i))"
  have atts: "attempts evs = map (\<lambda>i. (i, err (w i))) [0..<nat (Count (defaulted config))]"
    using Ping_sampling_events [OF res' count, of sched] evs by (simp add: w_def)
  have i: "i < nat (Count (defaulted config))" and ei: "err (w i) = Some e"
    using failed unfolding atts by auto
  have sset: "set sched = {0..<nat (Count (defaulted config))}"
    using arrival_order_set [OF order] config' by simp
  have errs: "errors_in_arrival_order sched evs = List.map_filter (\<lambda>j. err (w j)) sched"
    unfolding errors_in_arrival_order_def atts
    by (rule map_filter_cong_set) (simp add: failure_indexed sset)
  have "List.map_filter (\<lambda>j. err (w j)) sched \<noteq> []"
    using i ei sset by (auto simp: map_filter_Nil_iff)
  then obtain e1 es where e1: "List.map_filter (\<lambda>j. err (w j)) sched = e1 # es"
    by (cases "List.map_filter (\<lambda>j. err (w j)) sched") auto
  have coll: "collect (map w sched) [] = Inl e1"
    by (simp add: collect_arrivals e1)
  have ping: "Ping env sched addr config =
      (Returns (PingResult_zero\<lparr>Host := host, IPAddr := ip, Address := addr\<rparr>, Some e1),
       defaulted config,
       evs0 @ concat (map (\<lambda>i. snd (worker env (strategy env (defaulted config) host (JoinHostPort env ip port)) i))
                      [0..<nat (Count (defaulted config))]))"
    using coll by (simp add: Ping_sampling [OF res' count] w_def)
  have quiet: "summaries evs0 = []"
    using resolveAddr_quiet [of env addr] res by simp
  have "out = Returns (PingResult_zero\<lparr>Host := host, IPAddr := ip, Address := addr\<rparr>, Some e1)"
    using ping run by simp
  moreover have "summaries evs = []"
    using ping run quiet by (auto simp: workers_events)
  ultimately show ?thesis
    using errs e1 by (simp add: PingResult_zero_def)
qed

theorem Ping_first_error_witness:
  "arrival_order 3 [2, 1, 0]
   \<and> (1, Some (OpError ''i/o timeout''))
        \<in> set (attempts (snd (snd (Ping (loopback True [0, 1]) [2, 1, 0] '':443'' (tcp_config 3)))))
   \<and> fst (Ping (loopback True [0, 1]) [2, 1, 0] '':443'' (tcp_config 3)) =
       Returns (PingResult_zero\<lparr>Host := ''localhost'', IPAddr := ''127.0.0.1'', Address := '':443''\<rparr>,
                Some (OpError ''i/o timeout''))
   \<and> (\<exists>es. errors_in_arrival_order [2, 1, 0]
               (snd (snd (Ping (loopback True [0, 1]) [2, 1, 0] '':443'' (tcp_config 3))))
             = OpError ''i/o timeout'' # es)
   \<and> summaries (snd (snd (Ping (loopback True [0, 1]) [2, 1, 0] '':443'' (tcp_config 3)))) = []"
proof -
  have order: "arrival_order (Count (tcp_config 3)) [2, 1, 0]"
    by (simp add: arrival_order_def tcp_config_def upt_conv_Cons)
  have failed: "(1, Some (OpError ''i/o timeout''))
        \<in> set (attempts (snd (snd (Ping (loopback True [0, 1]) [2, 1, 0] '':443'' (tcp_config 3)))))"
    unfolding run_two_fail by (simp add: attempts_Cons)
  have run: "Ping (loopback True [0, 1]) [2, 1, 0] '':443'' (tcp_config 3) =
      (fst (Ping (loopback True [0, 1]) [2, 1, 0] '':443'' (tcp_config 3)), tcp_config 3,
       snd (snd (Ping (loopback True [0, 1]) [2, 1, 0] '':443'' (tcp_config 3))))"
    unfolding run_two_fail by simp
  obtain r e1 es where
    "fst (Ping (loopback True [0, 1]) [2, 1, 0] '':443'' (tcp_config 3)) = Returns (r, Some e1)"
    "errors_in_arrival_order [2, 1, 0]
       (snd (snd (Ping (loopback True [0, 1]) [2, 1, 0] '':443'' (tcp_config 3)))) = e1 # es"
    "summaries (snd (snd (Ping (loopback True [0, 1]) [2, 1, 0] '':443'' (tcp_config 3)))) = []"
    using Ping_first_error [OF run order failed] by blast
  then show ?thesis
    using order failed unfolding run_two_fail by (auto simp: tcp_config_def)
qed

text \<open>
  Claim C3. Take any run of \<open>Ping\<close> with its goroutines and its channel, in which the
  address resolves, the channel can be made (the count is neither negative nor beyond what
  the runtime allows) and every timed attempt succeeds. Then \<open>summarize\<close> is called once,
  as the last thing the run does, on a slice of exactly \<open>Count\<close> durations; there were
  exactly \<open>Count\<close> attempts; the slice holds each worker's duration once; and \<open>Ping\<close>
  returns the result with these statistics and no error. (\<open>Count\<close> is the count of the
  configuration when \<open>Ping\<close> ends, which is 1 when 0 was passed.)
\<close>

theorem Ping_run_all_succeed:
  assumes run: "Ping_run maxchan env addr config (out, config', evs)"
      and resolved: "fst (resolveAddr env addr) = Returns (host, ip, port, None)"
      and count: "0 \<le> Count config'" "Count config' \<le> maxchan"
      and ok: "\<forall>a \<in> set (attempts evs). snd a = None"
  shows "\<exists>ds. summaries evs = [ds]
           \<and> last evs = Summarized ds
           \<and> int (length ds) = Count config'
           \<and> int (length (attempts evs)) = Count config'
           \<and> mset ds = mset (map (\<lambda>i. seconds (fst (worker env (strategy env config' host (JoinHostPort env ip port)) i)))
                                 [0..<nat (Count config')])
           \<and> out = Returns (setSummaryStats env (PingResult_zero\<lparr>Host := host, IPAddr := ip, Address := addr\<rparr>)
                              (summarize env ds), None)"
proof -
  define result where "result = (out, config', evs)"
  have "Ping_run maxchan env addr config result"
    using run by (simp add: result_def)
  then show ?thesis
  proof (cases rule: Ping_run.cases)
  case (resolve_panics msg evs0)
  then show ?thesis using resolved by simp
next
  case (resolve_fails host' ip' port' e evs0)
  then show ?thesis using resolved by simp
next
  case (makechan_panics host' ip' port' evs0)
  then show ?thesis using count by (auto simp: result_def)
next
  case (returns_error host' ip' port' evs0 n f s e)
  let ?w = "\<lambda>i. fst (worker env f i)"
  note inv = inv_reachable [OF returns_error(7)]
  from early_return_is_first_error [OF returns_error(7,8)]
  have g: "got s \<noteq> []" and e: "err (?w (last (got s))) = Some e" by simp_all
  have "last (got s) \<in> set (got s @ results_buf s)" using g by simp
  then have i: "last (got s) < n" using sampler_invD(3) [OF inv] by auto
  have quiet: "attempts evs0 = []"
    using resolveAddr_quiet [of env addr] returns_error(2) by simp
  have "attempts evs = map (\<lambda>i. (i, err (?w i))) [0..<n]"
    using returns_error(1,6) quiet by (simp add: result_def started_events)
  then have "(last (got s), Some e) \<in> set (attempts evs)"
    using i e by auto
  then show ?thesis using ok by auto
next
  case (returns_summary host' ip' port' evs0 n f s ds)
  let ?w = "\<lambda>i. fst (worker env f i)"
  have same: "host' = host" "ip' = ip" "port' = port"
    using returns_summary(2) resolved by simp_all
  have cfg: "config' = defaulted config" using returns_summary(1) by (simp add: result_def)
  have n: "n = nat (Count config')" using returns_summary(5) cfg by simp
  have f: "f = strategy env config' host (JoinHostPort env ip port)"
    using returns_summary(6) cfg same by simp
  have quiet: "attempts evs0 = []" "summaries evs0 = []"
    using resolveAddr_quiet [of env addr] returns_summary(2) by simp_all
  have evs: "evs = evs0 @ started env f (launched n) @ [Summarized ds]"
    using returns_summary(1) by (simp add: result_def)
  have s: "summaries evs = [ds]"
    unfolding evs f using quiet by (simp add: started_events summaries_Cons)
  have l: "last evs = Summarized ds" unfolding evs by simp
  have a: "int (length (attempts evs)) = Count config'"
    unfolding evs f using quiet count n by (simp add: started_events attempts_Cons)
  from loop_end_has_all_durations(1,2) [OF returns_summary(7,8)]
  have len: "length ds = n" and m: "mset ds = mset (map (\<lambda>i. seconds (?w i)) [0..<n])" .
  have len': "int (length ds) = Count config'" using len n count by simp
  have out: "out = Returns (setSummaryStats env (PingResult_zero\<lparr>Host := host, IPAddr := ip, Address := addr\<rparr>)
                              (summarize env ds), None)"
    using returns_summary(1) same by (simp add: result_def)
  show ?thesis
    using s l len' a m out unfolding f n by blast
qed
qed


theorem Ping_run_all_succeed_witness:
  "Ping_run 1000 (loopback True []) '':443'' (tcp_config 3)
     (Ping (loopback True []) [2, 0, 1] '':443'' (tcp_config 3))
   \<and> map snd (attempts (snd (snd (Ping (loopback True []) [2, 0, 1] '':443'' (tcp_config 3)))))
       = [None, None, None]
   \<and> (\<exists>ds. summaries (snd (snd (Ping (loopback True []) [2, 0, 1] '':443'' (tcp_config 3)))) = [ds]
           \<and> length ds = 3)"
proof -
  let ?run = "Ping (loopback True []) [2, 0, 1] '':443'' (tcp_config 3)"
  have order: "arrival_order (Count (defaulted (tcp_config 3))) [2, 0, 1]"
    by (simp add: arrival_order_def defaulted_def tcp_config_def upt_conv_Cons)
  have fits: "Count (defaulted (tcp_config 3)) \<le> 1000"
    by (simp add: defaulted_def tcp_config_def)
  have run: "Ping_run 1000 (loopback True []) '':443'' (tcp_config 3)
      (fst ?run, tcp_config 3, snd (snd ?run))"
    using Ping_then_Ping_run [OF order fits, of "loopback True []" "'':443''"]
    unfolding run_all_ok by simp
  have resolved: "fst (resolveAddr (loopback True []) '':443'') =
      Returns (''localhost'', ''127.0.0.1'', ''443'', None)"
    by (simp add: resolveAddr_def loopback_def split_last_colon_def Let_def Second_def)
  have count: "0 \<le> Count (tcp_config 3)" "Count (tcp_config 3) \<le> 1000"
    by (simp_all add: tcp_config_def)
  have atts: "map snd (attempts (snd (snd ?run))) = [None, None, None]"
    unfolding run_all_ok by (simp add: attempts_Cons)
  then have ok: "\<forall>a \<in> set (attempts (snd (snd ?run))). snd a = None"
    by (metis (no_types, lifting) image_eqI list.set_map insert_iff empty_iff list.simps(15) empty_set)
  obtain ds where "summaries (snd (snd ?run)) = [ds]" "int (length ds) = Count (tcp_config 3)"
    using Ping_run_all_succeed [OF run resolved count ok] by blast
  then have "\<exists>ds. summaries (snd (snd ?run)) = [ds] \<and> length ds = 3"
    by (auto simp: tcp_config_def)
  moreover have "Ping_run 1000 (loopback True []) '':443'' (tcp_config 3) ?run"
    using run unfolding run_all_ok by simp
  ultimately show ?thesis using atts by blast
qed

section \<open>The configuration\<close>

text \<open>
  Claim C10. Changing the field \<open>Ip\<close> of the configuration changes neither what \<open>Ping\<close>
  returns (result and error, or panic) nor its events (the lookup, the probes, the timed
  dials with all their arguments, the call of \<open>summarize\<close>); the configuration left
  behind differs in \<open>Ip\<close> only.
\<close>

theorem Ping_Ip_irrelevant:
  "fst (Ping env sched addr (config\<lparr>Ip := ip\<rparr>)) = fst (Ping env sched addr config)
   \<and> snd (snd (Ping env sched addr (config\<lparr>Ip := ip\<rparr>))) = snd (snd (Ping env sched addr config))
   \<and> fst (snd (Ping env sched addr (config\<lparr>Ip := ip\<rparr>))) = (fst (snd (Ping env sched addr config)))\<lparr>Ip := ip\<rparr>"
  by (cases rule: resolveAddr_cases [of env addr])
     (simp_all add: Ping_unfold Let_def defaulted_Ip strategy_Ip split: sum.splits)

theorem Ping_Ip_irrelevant_witness:
  "fst (Ping (loopback True []) [0] '':443'' ((tcp_config 1)\<lparr>Ip := ''192.0.2.7''\<rparr>)) =
     Returns (PingResult_zero\<lparr>Host := ''localhost'', IPAddr := ''127.0.0.1'', Address := '':443'', Count_r := 1\<rparr>,
              None)"
  using Ping_Ip_irrelevant [where env = "loopback True []" and sched = "[0]" and addr = "'':443''"
      and config = "tcp_config 1" and ip = "''192.0.2.7''"]
  unfolding run_one by simp

text \<open>
  Claim C4, as stated, fails: called with \<open>Count = 0\<close>, \<open>Ping\<close> writes 1 into the
  \<open>Count\<close> field of the caller's \<open>Config\<close>.
\<close>

theorem Ping_modifies_Count_counterexample:
  "fst (snd (Ping (loopback True []) [0] '':443'' (tcp_config 0))) = tcp_config 1
   \<and> tcp_config 1 \<noteq> tcp_config 0"
  unfolding run_zero by (simp add: tcp_config_def)

text \<open>
  Claim C4, amended. \<open>Ping\<close> leaves every field of the configuration as it was, except
  that a \<open>Count\<close> of 0 is replaced by 1; a configuration with a nonzero \<open>Count\<close> is not
  modified at all. This holds however the call ends.
\<close>

theorem Ping_config_effect:
  "fst (snd (Ping env sched addr config)) = config\<lparr>Count := (if Count config = 0 then 1 else Count config)\<rparr>
   \<and> (Count config \<noteq> 0 \<longrightarrow> fst (snd (Ping env sched addr config)) = config)"
  by (simp add: Ping_config defaulted_def)

theorem Ping_config_effect_witness:
  "Count (tcp_config 3) \<noteq> 0
   \<and> fst (snd (Ping (loopback True []) [2, 0, 1] '':443'' (tcp_config 3))) = tcp_config 3"
  using Ping_config_effect [of "loopback True []" "[2, 0, 1]" "'':443''" "tcp_config 3"]
  by (simp add: tcp_config_def)

text \<open>
  Claim C2, as stated, fails for a negative count: with \<open>Count = -1\<close> the call panics
  when it makes the channel, after resolving the address and before any timed attempt,
  whereas with \<open>Count = 1\<close> it returns the statistics of one attempt.
\<close>

theorem Ping_negative_count_counterexample:
  "fst (Ping (loopback True []) [0] '':443'' (tcp_config (- 1))) = Panics ''makechan: size out of range''
   \<and> fst (Ping (loopback True []) [0] '':443'' (tcp_config 1)) =
       Returns (PingResult_zero\<lparr>Host := ''localhost'', IPAddr := ''127.0.0.1'', Address := '':443'', Count_r := 1\<rparr>,
                None)
   \<and> attempts (snd (snd (Ping (loopback True []) [0] '':443'' (tcp_config (- 1))))) = []"
  unfolding run_negative run_one by (simp add: attempts_Cons)

text \<open>
  Claim C2, amended. With \<open>Count = 0\<close>, \<open>Ping\<close> behaves in every respect as with
  \<open>Count = 1\<close>: same results, same configuration left behind, same events. In that run
  exactly one timed attempt is made once the address has resolved, and when the run returns
  without error \<open>summarize\<close> has been called once, on one duration. Counts below zero are
  replaced by 1 in \<open>main\<close>, before the configuration is built: for a count that is zero or
  negative, \<open>main\<close> builds the configuration it builds for 1.
\<close>

theorem Ping_count_zero_as_one:
  assumes zero: "Count config = 0"
  shows "Ping env sched addr config = Ping env sched addr (config\<lparr>Count := 1\<rparr>)
     \<and> (\<forall>host ip port. fst (resolveAddr env addr) = Returns (host, ip, port, None) \<longrightarrow>
           length (attempts (snd (snd (Ping env sched addr config)))) = 1)
     \<and> (\<forall>r. arrival_order 1 sched \<and> fst (Ping env sched addr config) = Returns (r, None) \<longrightarrow>
           (\<exists>d. summaries (snd (snd (Ping env sched addr config))) = [[d]]))
     \<and> (\<forall>count \<le> 0. main_config maxCount tcpOnly count insecure caCerts ip
                       = main_config maxCount tcpOnly 1 insecure caCerts ip)"
proof (intro conjI allI impI ballI)
  show same: "Ping env sched addr config = Ping env sched addr (config\<lparr>Count := 1\<rparr>)"
    by (simp add: Ping_unfold defaulted_zero [OF zero])
next
  fix host ip port
  assume "fst (resolveAddr env addr) = Returns (host, ip, port, None)"
  then obtain evs0 where res: "resolveAddr env addr = (Returns (host, ip, port, None), evs0)"
    by (cases "resolveAddr env addr") simp
  have "0 \<le> Count (defaulted config)" using zero by (simp add: defaulted_def)
  from Ping_sampling_events [OF res this, of sched]
  show "length (attempts (snd (snd (Ping env sched addr config)))) = 1"
    using zero by (simp add: defaulted_def)
next
  fix r
  assume a: "arrival_order 1 sched \<and> fst (Ping env sched addr config) = Returns (r, None)"
  have d1: "defaulted config = config\<lparr>Count := 1\<rparr>" using zero by (simp add: defaulted_def)
  have len: "length sched = 1" using a arrival_order_length [of 1 sched] by simp
  then obtain j where sched: "sched = [j]" by (cases sched) auto
  show "\<exists>d. summaries (snd (snd (Ping env sched addr config))) = [[d]]"
  proof (cases rule: resolveAddr_cases [of env addr])
    case (panic msg evs)
    then show ?thesis using a by (simp add: Ping_panic)
  next
    case (error host ip port e evs)
    then show ?thesis using a by (simp add: Ping_error)
  next
    case (ok host ip port evs)
    have c: "0 \<le> Count (defaulted config)" using d1 by simp
    have quiet: "summaries evs = []"
      using resolveAddr_quiet [of env addr] ok by simp
    show ?thesis
      using a quiet unfolding Ping_sampling [OF ok c] sched
      by (auto simp: worker_strategy_events summaries_Cons d1 split: sum.splits option.splits)
  qed
next
  fix count :: int
  assume "count \<le> 0"
  then show "main_config maxCount tcpOnly count insecure caCerts ip
                       = main_config maxCount tcpOnly 1 insecure caCerts ip"
    by (simp add: main_config_def)
qed

theorem Ping_count_zero_as_one_witness:
  "Count (tcp_config 0) = 0
   \<and> Ping (loopback True []) [0] '':443'' (tcp_config 0)
       = Ping (loopback True []) [0] '':443'' ((tcp_config 0)\<lparr>Count := 1\<rparr>)
   \<and> length (attempts (snd (snd (Ping (loopback True []) [0] '':443'' (tcp_config 0))))) = 1
   \<and> (\<exists>d. summaries (snd (snd (Ping (loopback True []) [0] '':443'' (tcp_config 0)))) = [[d]])
   \<and> main_config 100 True (- 5) False None [] = main_config 100 True 1 False None []"
proof -
  have zero: "Count (tcp_config 0) = 0"
    by (simp add: tcp_config_def)
  have resolved: "fst (resolveAddr (loopback True []) '':443'') =
      Returns (''localhost'', ''127.0.0.1'', ''443'', None)"
    by (simp add: resolveAddr_def loopback_def split_last_colon_def Let_def Second_def)
  have order: "arrival_order 1 [0]"
    by (simp add: arrival_order_def)
  have ok: "fst (Ping (loopback True []) [0] '':443'' (tcp_config 0)) =
      Returns (PingResult_zero\<lparr>Host := ''localhost'', IPAddr := ''127.0.0.1'', Address := '':443'', Count_r := 1\<rparr>,
               None)"
    unfolding run_zero by simp
  have neg: "(- 5 :: int) \<le> 0" by simp
  show ?thesis
    using Ping_count_zero_as_one [OF zero, of "loopback True []" "[0]" "'':443''" 100 True False None "[]"]
      zero resolved order ok neg
    by blast
qed

section \<open>The summary statistics\<close>



end
